theory Spec2Isabelle
  imports Complex_Main
begin

section \<open>Numbers, clock and configuration\<close>

text \<open>
  JavaScript numbers are modelled as real numbers (the rounding of IEEE doubles is not
  represented); counters that the code only increments by one are natural numbers, the
  score is an integer.  Every read of \<^verbatim>\<open>Date.now()\<close> inside one method call is
  the argument \<open>now\<close> of the model of that method (milliseconds).

  \<^verbatim>\<open>GAME_CONFIG\<close> of \<^verbatim>\<open>constants.js\<close>, the fields the engine reads.
\<close>

definition MAX_CUSTOMERS :: nat where "MAX_CUSTOMERS = 6"
definition MAX_LOST :: nat where "MAX_LOST = 5"
definition BASE_SPAWN_INTERVAL :: real where "BASE_SPAWN_INTERVAL = 6000"
definition MIN_SPAWN_INTERVAL :: real where "MIN_SPAWN_INTERVAL = 2500"
definition PATIENCE_DECAY_RATE :: real where "PATIENCE_DECAY_RATE = 1.5"
definition BOTTLE_COOLDOWN :: real where "BOTTLE_COOLDOWN = 3000"
definition COMBO_TIMEOUT :: real where "COMBO_TIMEOUT = 3000"
definition BASE_SCORE :: int where "BASE_SCORE = 100"
definition PATIENCE_BONUS_MULTIPLIER :: real where "PATIENCE_BONUS_MULTIPLIER = 1"
definition COMBO_BONUS :: int where "COMBO_BONUS = 25"

lemmas GAME_CONFIG =
  MAX_CUSTOMERS_def MAX_LOST_def BASE_SPAWN_INTERVAL_def MIN_SPAWN_INTERVAL_def
  PATIENCE_DECAY_RATE_def BOTTLE_COOLDOWN_def COMBO_TIMEOUT_def BASE_SCORE_def
  PATIENCE_BONUS_MULTIPLIER_def COMBO_BONUS_def

section \<open>Bottle (Bottle.js)\<close>

text \<open>
  \<^verbatim>\<open>BOTTLE_STATES\<close> and \<^verbatim>\<open>BOTTLE_TYPES\<close>.  Of a bottle type the model keeps
  the id, the name and the \<^verbatim>\<open>locked\<close> flag (absent in the table means false); emoji,
  colour and template text are only drawn or sent.
\<close>

datatype bottle_state = B_IDLE | B_POURING | B_EMPTY | B_REFILLING

record bottle_type =
  bt_id :: string
  bt_name :: string
  bt_locked :: bool

definition BOTTLE_TYPES :: "bottle_type list" where
  "BOTTLE_TYPES =
    [\<lparr>bt_id = ''welcome'', bt_name = ''Welcome'', bt_locked = False\<rparr>,
     \<lparr>bt_id = ''thankyou'', bt_name = ''Thank You'', bt_locked = False\<rparr>,
     \<lparr>bt_id = ''reminder'', bt_name = ''Reminder'', bt_locked = False\<rparr>,
     \<lparr>bt_id = ''celebration'', bt_name = ''Celebration'', bt_locked = False\<rparr>,
     \<lparr>bt_id = ''ai'', bt_name = ''AI Reply'', bt_locked = True\<rparr>]"

definition BOTTLE_START_X :: real where "BOTTLE_START_X = 240"
definition BOTTLE_SPACING :: real where "BOTTLE_SPACING = 140"
definition BOTTLE_SHELF_Y :: real where "BOTTLE_SHELF_Y = 120"

record bottle =
  b_type :: bottle_type
  b_index :: nat
  b_x :: real
  b_y :: real
  b_state :: bottle_state
  b_cooldownEnd :: real
  b_isSelected :: bool
  b_frame :: nat
  b_frameTimer :: real
  b_animationSpeed :: real
  b_fillLevel :: real
  b_glowIntensity :: real
  b_hoverScale :: real

text \<open>The constructor: an unknown type id falls back to the first entry of the table.\<close>

definition Bottle_new :: "string \<Rightarrow> nat \<Rightarrow> bottle" where
  "Bottle_new typeId index =
    (let ty = (case find (\<lambda>t. bt_id t = typeId) BOTTLE_TYPES of
                 Some t \<Rightarrow> t | None \<Rightarrow> hd BOTTLE_TYPES)
     in \<lparr>b_type = ty,
         b_index = index,
         b_x = BOTTLE_START_X + real index * BOTTLE_SPACING,
         b_y = BOTTLE_SHELF_Y,
         b_state = (if bt_locked ty then B_EMPTY else B_IDLE),
         b_cooldownEnd = 0,
         b_isSelected = False,
         b_frame = 0,
         b_frameTimer = 0,
         b_animationSpeed = 150,
         b_fillLevel = (if bt_locked ty then 0 else 1),
         b_glowIntensity = 0,
         b_hoverScale = 1\<rparr>)"

definition isOnCooldown :: "bottle \<Rightarrow> real \<Rightarrow> bool" where
  "isOnCooldown b now = (now < b_cooldownEnd b)"

definition getCooldownProgress :: "bottle \<Rightarrow> real \<Rightarrow> real" where
  "getCooldownProgress b now =
    (if \<not> isOnCooldown b now then 1
     else 1 - (b_cooldownEnd b - now) / BOTTLE_COOLDOWN)"

text \<open>\<^verbatim>\<open>use()\<close> returns its boolean together with the bottle as it leaves it.\<close>

definition use :: "bottle \<Rightarrow> real \<Rightarrow> bool \<times> bottle" where
  "use b now =
    (if bt_locked (b_type b) \<or> isOnCooldown b now then (False, b)
     else (True, b\<lparr>b_state := B_POURING,
                   b_frame := 0,
                   b_fillLevel := 0,
                   b_cooldownEnd := now + BOTTLE_COOLDOWN\<rparr>))"

text \<open>\<^verbatim>\<open>update(deltaTime)\<close>, in the four blocks of the source.\<close>

definition bottle_animate :: "real \<Rightarrow> bottle \<Rightarrow> bottle" where
  "bottle_animate deltaTime b =
    (let t = b_frameTimer b + deltaTime
     in if t \<ge> b_animationSpeed b
        then b\<lparr>b_frameTimer := 0, b_frame := b_frame b + 1\<rparr>
        else b\<lparr>b_frameTimer := t\<rparr>)"

definition bottle_transition :: "real \<Rightarrow> real \<Rightarrow> bottle \<Rightarrow> bottle" where
  "bottle_transition deltaTime now b =
    (if b_state b = B_POURING then
       (let f = max 0 (b_fillLevel b - deltaTime / 300)
        in if f \<le> 0 then b\<lparr>b_fillLevel := f, b_state := B_EMPTY, b_frame := 0\<rparr>
           else b\<lparr>b_fillLevel := f\<rparr>)
     else if b_state b = B_EMPTY \<and> isOnCooldown b now then
       b\<lparr>b_state := B_REFILLING, b_frame := 0\<rparr>
     else if b_state b = B_REFILLING then
       (if \<not> isOnCooldown b now
        then b\<lparr>b_fillLevel := 1, b_state := B_IDLE, b_frame := 0\<rparr>
        else b\<lparr>b_fillLevel := getCooldownProgress b now\<rparr>)
     else b)"

definition bottle_glow :: "real \<Rightarrow> real \<Rightarrow> bottle \<Rightarrow> bottle" where
  "bottle_glow deltaTime now b =
    (if b_isSelected b \<and> \<not> bt_locked (b_type b)
     then b\<lparr>b_glowIntensity := 0.8 + sin (now / 200) * 0.2\<rparr>
     else b\<lparr>b_glowIntensity := max 0 (b_glowIntensity b - deltaTime / 200)\<rparr>)"

definition bottle_hover :: "bottle \<Rightarrow> bottle" where
  "bottle_hover b =
    (let targetScale = (if b_isSelected b then 1.1 else 1)
     in b\<lparr>b_hoverScale := b_hoverScale b + (targetScale - b_hoverScale b) * 0.1\<rparr>)"

definition Bottle_update :: "bottle \<Rightarrow> real \<Rightarrow> real \<Rightarrow> bottle" where
  "Bottle_update b deltaTime now =
    bottle_hover (bottle_glow deltaTime now
      (bottle_transition deltaTime now (bottle_animate deltaTime b)))"

text \<open>A bottle of the first template, as the game creates it, used at time 0.\<close>

definition welcome_used :: bottle where
  "welcome_used = snd (use (Bottle_new ''welcome'' 0) 0)"

definition welcome_drained :: bottle where
  "welcome_drained = Bottle_update welcome_used 16 16"

section \<open>Bottle: state and fill level through an update\<close>

lemma b_state_animate [simp]: "b_state (bottle_animate d b) = b_state b"
  by (simp add: bottle_animate_def Let_def)

lemma b_cooldownEnd_animate [simp]: "b_cooldownEnd (bottle_animate d b) = b_cooldownEnd b"
  by (simp add: bottle_animate_def Let_def)

lemma b_fillLevel_animate [simp]: "b_fillLevel (bottle_animate d b) = b_fillLevel b"
  by (simp add: bottle_animate_def Let_def)

lemma b_type_animate [simp]: "b_type (bottle_animate d b) = b_type b"
  by (simp add: bottle_animate_def Let_def)

lemma isOnCooldown_animate [simp]: "isOnCooldown (bottle_animate d b) now = isOnCooldown b now"
  by (simp add: isOnCooldown_def)

lemma b_state_update:
  "b_state (Bottle_update b d now) = b_state (bottle_transition d now (bottle_animate d b))"
  by (simp add: Bottle_update_def bottle_hover_def bottle_glow_def Let_def)

lemma b_fillLevel_update:
  "b_fillLevel (Bottle_update b d now) =
   b_fillLevel (bottle_transition d now (bottle_animate d b))"
  by (simp add: Bottle_update_def bottle_hover_def bottle_glow_def Let_def)

lemma b_cooldownEnd_update [simp]: "b_cooldownEnd (Bottle_update b d now) = b_cooldownEnd b"
  by (simp add: Bottle_update_def bottle_hover_def bottle_glow_def bottle_transition_def Let_def)

lemma b_type_update [simp]: "b_type (Bottle_update b d now) = b_type b"
  by (simp add: Bottle_update_def bottle_hover_def bottle_glow_def bottle_transition_def Let_def)

lemma welcome_used_fields:
  "b_state welcome_used = B_POURING" "b_fillLevel welcome_used = 0"
  "b_cooldownEnd welcome_used = 3000" "\<not> bt_locked (b_type welcome_used)"
  by (simp_all add: welcome_used_def use_def Bottle_new_def BOTTLE_TYPES_def isOnCooldown_def
      BOTTLE_COOLDOWN_def Let_def)

lemma welcome_drained_fields:
  "b_state welcome_drained = B_EMPTY" "b_fillLevel welcome_drained = 0"
  "b_cooldownEnd welcome_drained = 3000" "\<not> bt_locked (b_type welcome_drained)"
  by (simp_all add: welcome_drained_def b_state_update b_fillLevel_update bottle_transition_def
      welcome_used_fields Let_def)

section \<open>Bottle: the cooldown cycle\<close>

text \<open>
  C7, as the code has it.  The source's branch is
  \<^verbatim>\<open>state === EMPTY && this.isOnCooldown()\<close>: a depleted bottle enters replenishing at
  an update tick exactly when its cooldown deadline is still pending
  (\<open>now < cooldownEnd\<close>), and a depleted bottle whose deadline has passed stays depleted
  (this is what keeps a locked bottle, whose deadline is 0, empty).  The transition that
  waits for the deadline is the next one: a replenishing bottle stays replenishing while
  the deadline is pending and becomes idle at the first tick at or after it.
\<close>

theorem C7_depleted_replenishes_while_pending:
  "(b_state b = B_EMPTY \<longrightarrow>
      b_state (Bottle_update b d now) =
        (if now < b_cooldownEnd b then B_REFILLING else B_EMPTY)) \<and>
   (b_state b = B_REFILLING \<longrightarrow>
      b_state (Bottle_update b d now) =
        (if now < b_cooldownEnd b then B_REFILLING else B_IDLE))"
  by (simp add: b_state_update bottle_transition_def isOnCooldown_def)

theorem C7_depleted_replenishes_while_pending_witness:
  "b_state welcome_drained = B_EMPTY \<and>
   b_state (Bottle_update welcome_drained 16 2000) = B_REFILLING \<and>
   b_state (Bottle_update welcome_drained 16 3100) = B_EMPTY"
  using C7_depleted_replenishes_while_pending [of welcome_drained 16 2000]
    C7_depleted_replenishes_while_pending [of welcome_drained 16 3100]
  by (simp add: welcome_drained_fields)

text \<open>
  C7 as the specification states it fails: the bottle used at time 0 (deadline 3000) is
  depleted after its first tick, and the tick at 32 ms, with the cooldown still pending,
  moves it to replenishing.
\<close>

theorem C7_counterexample:
  "b_state welcome_drained = B_EMPTY \<and> isOnCooldown welcome_drained 32 \<and>
   b_state (Bottle_update welcome_drained 16 32) = B_REFILLING"
  by (simp add: b_state_update bottle_transition_def isOnCooldown_def welcome_drained_fields)

text \<open>
  C8 at a concrete bottle: the unlocked, full, off-cooldown bottle of the first template
  accepts \<^verbatim>\<open>use()\<close> at time 1000, and its fill level is 0 in the state \<^verbatim>\<open>use()\<close>
  returns; the drain of the pouring branch of \<^verbatim>\<open>update\<close> has nothing left to drain, and
  the first tick, however short, finds the bottle depleted.
\<close>

theorem C8_use_empties_at_once:
  "b_fillLevel (Bottle_new ''welcome'' 0) = 1 \<and>
   fst (use (Bottle_new ''welcome'' 0) 1000) \<and>
   b_fillLevel (snd (use (Bottle_new ''welcome'' 0) 1000)) = 0 \<and>
   b_state (Bottle_update (snd (use (Bottle_new ''welcome'' 0) 1000)) 1 1001) = B_EMPTY"
  by (simp add: use_def Bottle_new_def BOTTLE_TYPES_def isOnCooldown_def b_state_update
      bottle_transition_def Let_def)

text \<open>
  C9.  For an unlocked bottle \<^verbatim>\<open>use()\<close> succeeds exactly when the clock is at or past
  \<open>cooldownEnd\<close>, whatever the state field holds; a success sets the state to pouring
  and the new deadline.  In particular a bottle left depleted across its deadline is
  usable.
\<close>

theorem C9_use_depends_on_deadline_only:
  "\<not> bt_locked (b_type b) \<Longrightarrow>
   (fst (use b now) \<longleftrightarrow> b_cooldownEnd b \<le> now) \<and>
   (b_cooldownEnd b \<le> now \<longrightarrow>
      b_state (snd (use b now)) = B_POURING \<and>
      b_cooldownEnd (snd (use b now)) = now + BOTTLE_COOLDOWN) \<and>
   (now < b_cooldownEnd b \<longrightarrow> snd (use b now) = b)"
  by (auto simp add: use_def isOnCooldown_def)

text \<open>
  The bottle used at 0 and ticked once is depleted; no tick runs until 3100 (the round
  was paused); \<^verbatim>\<open>use()\<close> at 3100 succeeds.
\<close>

theorem C9_use_depends_on_deadline_only_witness:
  "\<not> bt_locked (b_type welcome_drained) \<and> b_state welcome_drained = B_EMPTY \<and>
   b_cooldownEnd welcome_drained \<le> 3100 \<and>
   fst (use welcome_drained 3100) \<and>
   b_state (snd (use welcome_drained 3100)) = B_POURING \<and>
   b_cooldownEnd (snd (use welcome_drained 3100)) = 6100"
  using C9_use_depends_on_deadline_only [of welcome_drained 3100]
  by (simp add: welcome_drained_fields BOTTLE_COOLDOWN_def)

section \<open>Customer (Customer.js)\<close>

text \<open>
  \<^verbatim>\<open>CUSTOMER_STATES\<close>, \<^verbatim>\<open>CUSTOMER_TYPES\<close> (id, name, patience ceiling and walk speed;
  the colour is only drawn), the demo pools and the positions the customer reads.
\<close>

datatype customer_state =
  WALKING_IN | IDLE | IMPATIENT | ANGRY | HAPPY | WALKING_OUT | STORMING_OFF

record customer_type =
  ct_id :: string
  ct_name :: string
  ct_patience :: real
  ct_walkSpeed :: real

definition CUSTOMER_TYPES :: "customer_type list" where
  "CUSTOMER_TYPES =
    [\<lparr>ct_id = ''office_worker'', ct_name = ''Office Worker'', ct_patience = 100, ct_walkSpeed = 2\<rparr>,
     \<lparr>ct_id = ''punk_girl'', ct_name = ''Punk Girl'', ct_patience = 80, ct_walkSpeed = 2.5\<rparr>,
     \<lparr>ct_id = ''robot'', ct_name = ''Service Bot'', ct_patience = 120, ct_walkSpeed = 1.8\<rparr>,
     \<lparr>ct_id = ''business_woman'', ct_name = ''Business Woman'', ct_patience = 70, ct_walkSpeed = 3\<rparr>,
     \<lparr>ct_id = ''old_hacker'', ct_name = ''Old Hacker'', ct_patience = 110, ct_walkSpeed = 1.5\<rparr>,
     \<lparr>ct_id = ''drone_pilot'', ct_name = ''Drone Pilot'', ct_patience = 60, ct_walkSpeed = 3.5\<rparr>]"

definition DEMO_MESSAGES :: "string list" where
  "DEMO_MESSAGES =
    [''Hey, are you there?'', ''Need help ASAP!'', ''Quick question...'', ''Hello???'',
     ''Is anyone working?'', ''I have a problem'', ''Can you help me?'', ''Urgent request!'',
     ''Hi, got a minute?'', ''Need assistance'', ''Where are you?'', ''Please respond'',
     ''Important matter'', ''Help needed!'']"

definition DEMO_NAMES :: "string list" where
  "DEMO_NAMES =
    [''Alex'', ''Jordan'', ''Taylor'', ''Morgan'', ''Casey'',
     ''Riley'', ''Quinn'', ''Avery'', ''Reese'', ''Sage'',
     ''Blake'', ''Drew'', ''Emery'', ''Finley'', ''Charlie'']"

definition BAR_Y :: real where "BAR_Y = 480"
definition CUSTOMER_SPAWN_X :: real where "CUSTOMER_SPAWN_X = 1350"
definition CUSTOMER_EXIT_X :: real where "CUSTOMER_EXIT_X = -150"
definition CUSTOMER_SLOTS :: "real list" where
  "CUSTOMER_SLOTS = [200, 350, 500, 650, 800, 950]"

text \<open>
  \<open>targetX\<close> starts as \<^verbatim>\<open>null\<close>; \<^verbatim>\<open>assignSlot\<close> stores
  \<^verbatim>\<open>CUSTOMER_SLOTS[slotIndex]\<close>, which is \<^verbatim>\<open>undefined\<close> beyond the table.
\<close>

datatype target = T_null | T_undefined | T_at real

record customer =
  c_id :: nat
  c_type :: customer_type
  c_name :: string
  c_message :: string
  c_phone :: string
  c_isReal :: bool
  c_x :: real
  c_y :: real
  c_targetX :: target
  c_slotIndex :: "nat option"
  c_state :: customer_state
  c_patience :: real
  c_maxPatience :: real
  c_arrivedAt :: real
  c_frame :: nat
  c_frameTimer :: real
  c_animationSpeed :: real
  c_isServed :: bool
  c_isLeaving :: bool
  c_isRemovable :: bool
  c_scale :: real
  c_alpha :: real
  c_shakeOffset :: real
  c_countedAsLost :: bool

text \<open>
  \<open>c_countedAsLost\<close> is the property \<^verbatim>\<open>Game.update\<close> adds to a customer; it is absent
  (falsy) until then.

  The decimal rendering of the id in the template string \<^verbatim>\<open>`demo_${this.id}`\<close>.
\<close>

function show_nat :: "nat \<Rightarrow> string" where
  "show_nat n =
    (if n < 10 then [char_of (48 + n)]
     else show_nat (n div 10) @ [char_of (48 + n mod 10)])"
  by pat_completeness auto
termination
  by (relation "measure id") auto

declare show_nat.simps [simp del]

text \<open>
  The constructor's options (\<^verbatim>\<open>options.x || default\<close> takes the default for an absent
  and for an empty string alike, so an absent string option is the empty string; an
  absent \<^verbatim>\<open>typeIndex\<close> is \<open>None\<close>), and the values \<^verbatim>\<open>Math.random()\<close> returns to the
  constructor, in \<open>[0, 1)\<close>.  \<open>idCounter\<close> is the module's \<^verbatim>\<open>customerIdCounter\<close>
  before the call; the new customer's id is its successor.  With random numbers in
  \<open>[0, 1)\<close> the three indices lie within their tables (\<open>random_index_less\<close> below); the
  game never passes a \<^verbatim>\<open>typeIndex\<close>.
\<close>

record customer_options =
  o_typeIndex :: "nat option"
  o_name :: string
  o_message :: string
  o_phone :: string
  o_isReal :: bool

record spawn_random =
  r_type :: real
  r_name :: real
  r_message :: real

definition no_options :: customer_options where
  "no_options = \<lparr>o_typeIndex = None, o_name = [], o_message = [], o_phone = [], o_isReal = False\<rparr>"

definition random_index :: "real \<Rightarrow> nat \<Rightarrow> nat" where
  "random_index r n = nat \<lfloor>r * real n\<rfloor>"

definition Customer_new :: "nat \<Rightarrow> customer_options \<Rightarrow> spawn_random \<Rightarrow> real \<Rightarrow> customer" where
  "Customer_new idCounter options rnd now =
    (let ident = idCounter + 1;
         typeIndex = (case o_typeIndex options of
                        Some i \<Rightarrow> i
                      | None \<Rightarrow> random_index (r_type rnd) (length CUSTOMER_TYPES));
         ty = CUSTOMER_TYPES ! typeIndex
     in \<lparr>c_id = ident,
         c_type = ty,
         c_name = (if o_name options \<noteq> [] then o_name options
                   else DEMO_NAMES ! random_index (r_name rnd) (length DEMO_NAMES)),
         c_message = (if o_message options \<noteq> [] then o_message options
                      else DEMO_MESSAGES ! random_index (r_message rnd) (length DEMO_MESSAGES)),
         c_phone = (if o_phone options \<noteq> [] then o_phone options
                    else ''demo_'' @ show_nat ident),
         c_isReal = o_isReal options,
         c_x = CUSTOMER_SPAWN_X,
         c_y = BAR_Y - 120,
         c_targetX = T_null,
         c_slotIndex = None,
         c_state = WALKING_IN,
         c_patience = ct_patience ty,
         c_maxPatience = ct_patience ty,
         c_arrivedAt = now,
         c_frame = 0,
         c_frameTimer = 0,
         c_animationSpeed = 150,
         c_isServed = False,
         c_isLeaving = False,
         c_isRemovable = False,
         c_scale = 1,
         c_alpha = 1,
         c_shakeOffset = 0,
         c_countedAsLost = False\<rparr>)"

definition assignSlot :: "customer \<Rightarrow> nat \<Rightarrow> customer" where
  "assignSlot c slotIndex =
    c\<lparr>c_slotIndex := Some slotIndex,
      c_targetX := (if slotIndex < length CUSTOMER_SLOTS
                    then T_at (CUSTOMER_SLOTS ! slotIndex) else T_undefined)\<rparr>"

definition updateWalkingIn :: "customer \<Rightarrow> real \<Rightarrow> customer" where
  "updateWalkingIn c deltaTime =
    (case c_targetX c of
       T_null \<Rightarrow> c
     | T_undefined \<Rightarrow>
         c\<lparr>c_x := c_x c - ct_walkSpeed (c_type c) * (deltaTime / 16) * 3\<rparr>
     | T_at tx \<Rightarrow>
         (let x = c_x c - ct_walkSpeed (c_type c) * (deltaTime / 16) * 3
          in if x \<le> tx then c\<lparr>c_x := tx, c_state := IDLE, c_frame := 0\<rparr>
             else c\<lparr>c_x := x\<rparr>))"

definition stormOff :: "customer \<Rightarrow> customer" where
  "stormOff c =
    (if c_isLeaving c then c
     else c\<lparr>c_isLeaving := True, c_state := STORMING_OFF, c_frame := 0,
            c_animationSpeed := 80\<rparr>)"

definition updateWaiting :: "customer \<Rightarrow> real \<Rightarrow> real \<Rightarrow> customer" where
  "updateWaiting c deltaTime difficulty =
    (let decayRate = PATIENCE_DECAY_RATE * difficulty * (deltaTime / 1000);
         c1 = c\<lparr>c_patience := max 0 (c_patience c - decayRate)\<rparr>;
         patiencePercent = (c_patience c1 / c_maxPatience c1) * 100
     in if patiencePercent \<le> 0 then stormOff c1
        else if patiencePercent < 25 \<and> c_state c1 \<noteq> ANGRY then
          c1\<lparr>c_state := ANGRY, c_frame := 0, c_animationSpeed := 100\<rparr>
        else if patiencePercent < 50 \<and> c_state c1 = IDLE then
          c1\<lparr>c_state := IMPATIENT, c_frame := 0, c_animationSpeed := 150\<rparr>
        else c1)"

definition updateHappy :: "customer \<Rightarrow> real \<Rightarrow> customer" where
  "updateHappy c deltaTime =
    (if c_frame c \<ge> 3 then c\<lparr>c_state := WALKING_OUT, c_frame := 0, c_isLeaving := True\<rparr>
     else c)"

definition updateLeaving :: "customer \<Rightarrow> real \<Rightarrow> customer" where
  "updateLeaving c deltaTime =
    (let speed = ct_walkSpeed (c_type c) * (deltaTime / 16);
         c1 = (if c_state c = WALKING_OUT
               then c\<lparr>c_x := c_x c - speed * 2, c_alpha := max 0 (c_alpha c - 0.01)\<rparr>
               else c\<lparr>c_x := c_x c + speed * 4\<rparr>)
     in if c_x c1 < CUSTOMER_EXIT_X \<or> c_x c1 > CUSTOMER_SPAWN_X
        then c1\<lparr>c_isRemovable := True\<rparr> else c1)"

definition customer_animate :: "customer \<Rightarrow> real \<Rightarrow> customer" where
  "customer_animate c deltaTime =
    (let t = c_frameTimer c + deltaTime
     in if t \<ge> c_animationSpeed c
        then c\<lparr>c_frameTimer := 0, c_frame := c_frame c + 1\<rparr>
        else c\<lparr>c_frameTimer := t\<rparr>)"

definition customer_dispatch :: "customer \<Rightarrow> real \<Rightarrow> real \<Rightarrow> customer" where
  "customer_dispatch c deltaTime difficulty =
    (case c_state c of
       WALKING_IN \<Rightarrow> updateWalkingIn c deltaTime
     | IDLE \<Rightarrow> updateWaiting c deltaTime difficulty
     | IMPATIENT \<Rightarrow> updateWaiting c deltaTime difficulty
     | ANGRY \<Rightarrow> updateWaiting c deltaTime difficulty
     | HAPPY \<Rightarrow> updateHappy c deltaTime
     | WALKING_OUT \<Rightarrow> updateLeaving c deltaTime
     | STORMING_OFF \<Rightarrow> updateLeaving c deltaTime)"

definition customer_shake :: "customer \<Rightarrow> real \<Rightarrow> customer" where
  "customer_shake c rnd =
    (if c_state c = ANGRY then c\<lparr>c_shakeOffset := (rnd - 0.5) * 6\<rparr>
     else c\<lparr>c_shakeOffset := 0\<rparr>)"

text \<open>
  \<^verbatim>\<open>update(deltaTime, difficulty)\<close>; \<open>rnd\<close> is what \<^verbatim>\<open>Math.random()\<close> returns for
  the shake of an angry customer.
\<close>

definition Customer_update :: "customer \<Rightarrow> real \<Rightarrow> real \<Rightarrow> real \<Rightarrow> customer" where
  "Customer_update c deltaTime difficulty rnd =
    customer_shake (customer_dispatch (customer_animate c deltaTime) deltaTime difficulty) rnd"

definition serve :: "customer \<Rightarrow> bool \<times> customer" where
  "serve c =
    (if c_isServed c \<or> c_isLeaving c then (False, c)
     else (True, c\<lparr>c_isServed := True, c_state := HAPPY, c_frame := 0,
                   c_animationSpeed := 150\<rparr>))"

definition getPatiencePercent :: "customer \<Rightarrow> real" where
  "getPatiencePercent c = (c_patience c / c_maxPatience c) * 100"

text \<open>A run of update ticks on one customer: each tick has its delta, difficulty and shake.\<close>

fun Customer_updates :: "customer \<Rightarrow> (real \<times> real \<times> real) list \<Rightarrow> customer" where
  "Customer_updates c [] = c"
| "Customer_updates c ((deltaTime, difficulty, rnd) # ticks) =
     Customer_updates (Customer_update c deltaTime difficulty rnd) ticks"

text \<open>
  The order of the waiting moods, from calm to gone, and what every customer the
  constructor makes satisfies from then on: the patience ceiling is positive, patience
  is not negative, and \<open>isLeaving\<close> is set exactly in the two exit states.
\<close>

fun mood_rank :: "customer_state \<Rightarrow> nat" where
  "mood_rank WALKING_IN = 0"
| "mood_rank IDLE = 1"
| "mood_rank IMPATIENT = 2"
| "mood_rank ANGRY = 3"
| "mood_rank STORMING_OFF = 4"
| "mood_rank HAPPY = 5"
| "mood_rank WALKING_OUT = 6"

definition waiting :: "customer \<Rightarrow> bool" where
  "waiting c = (c_state c = IDLE \<or> c_state c = IMPATIENT \<or> c_state c = ANGRY)"

definition customer_ok :: "customer \<Rightarrow> bool" where
  "customer_ok c =
    (0 < c_maxPatience c \<and> 0 \<le> c_patience c \<and>
     (c_isLeaving c = (c_state c = WALKING_OUT \<or> c_state c = STORMING_OFF)))"

definition random_ok :: "real \<Rightarrow> bool" where
  "random_ok r = (0 \<le> r \<and> r < 1)"

text \<open>
  The patience \<^verbatim>\<open>updateWaiting\<close> stores: the decay of one tick, floored at 0.  A run of
  ticks is admissible when every delta is positive and no difficulty is negative (the
  game's difficulty stays between 1 and 3).
\<close>

definition decayed :: "customer \<Rightarrow> real \<Rightarrow> real \<Rightarrow> real" where
  "decayed c d D = max 0 (c_patience c - PATIENCE_DECAY_RATE * D * (d / 1000))"

definition ticks_ok :: "(real \<times> real \<times> real) list \<Rightarrow> bool" where
  "ticks_ok ticks = list_all (\<lambda>(deltaTime, difficulty, rnd). 0 < deltaTime \<and> 0 \<le> difficulty) ticks"

text \<open>An office worker, waiting at the first slot with 30 of 100 patience left.\<close>

definition worker :: customer where
  "worker =
    (assignSlot
      (Customer_new 0 (no_options\<lparr>o_typeIndex := Some 0\<rparr>)
        \<lparr>r_type = 0, r_name = 0, r_message = 0\<rparr> 0) 0)
      \<lparr>c_x := 200, c_state := IDLE, c_patience := 30\<rparr>"

section \<open>Customer: what one update changes\<close>

lemma animate_fields [simp]:
  "c_state (customer_animate c d) = c_state c"
  "c_patience (customer_animate c d) = c_patience c"
  "c_maxPatience (customer_animate c d) = c_maxPatience c"
  "c_isLeaving (customer_animate c d) = c_isLeaving c"
  "c_isServed (customer_animate c d) = c_isServed c"
  by (simp_all add: customer_animate_def Let_def)

lemma shake_fields [simp]:
  "c_state (customer_shake c r) = c_state c"
  "c_patience (customer_shake c r) = c_patience c"
  "c_maxPatience (customer_shake c r) = c_maxPatience c"
  "c_isLeaving (customer_shake c r) = c_isLeaving c"
  "c_isServed (customer_shake c r) = c_isServed c"
  by (simp_all add: customer_shake_def)

lemma worker_fields: "c_state worker = IDLE" "c_patience worker = 30" "c_maxPatience worker = 100"
  "\<not> c_isLeaving worker" "\<not> c_isServed worker"
      by (simp_all add: worker_def assignSlot_def Customer_new_def CUSTOMER_TYPES_def no_options_def Let_def)

lemma waiting_dispatch:
  "waiting c \<Longrightarrow> customer_dispatch c d D = updateWaiting c d D"
  unfolding waiting_def customer_dispatch_def by (cases "c_state c") simp_all

lemma updateWaiting_maxPatience:
  "c_maxPatience (updateWaiting c d D) = c_maxPatience c"
  by (simp add: updateWaiting_def stormOff_def Let_def)

lemma updateWaiting_state:
  "c_state (updateWaiting c d D) =
    (if decayed c d D / c_maxPatience c * 100 \<le> 0
       then (if c_isLeaving c then c_state c else STORMING_OFF)
      else if decayed c d D / c_maxPatience c * 100 < 25 \<and> c_state c \<noteq> ANGRY then ANGRY
      else if decayed c d D / c_maxPatience c * 100 < 50 \<and> c_state c = IDLE then IMPATIENT
      else c_state c)"
  unfolding updateWaiting_def Let_def decayed_def [symmetric]
  by (simp add: stormOff_def)

lemma updateWaiting_isLeaving:
  "c_isLeaving (updateWaiting c d D) =
    (c_isLeaving c \<or> decayed c d D / c_maxPatience c * 100 \<le> 0)"
  unfolding updateWaiting_def Let_def decayed_def [symmetric]
  by (simp add: stormOff_def)

lemma updateWaiting_patience:
  "c_patience (updateWaiting c d D) = decayed c d D"
  unfolding updateWaiting_def Let_def decayed_def [symmetric]
  by (simp add: stormOff_def)

lemma updateWaiting_isServed:
  "c_isServed (updateWaiting c d D) = c_isServed c"
  unfolding updateWaiting_def Let_def decayed_def [symmetric]
  by (simp add: stormOff_def)

lemma updateWalkingIn_fields:
  "c_patience (updateWalkingIn c d) = c_patience c"
  "c_maxPatience (updateWalkingIn c d) = c_maxPatience c"
  "c_isLeaving (updateWalkingIn c d) = c_isLeaving c"
  "c_isServed (updateWalkingIn c d) = c_isServed c"
  "c_state (updateWalkingIn c d) = c_state c \<or> c_state (updateWalkingIn c d) = IDLE"
  by (simp_all add: updateWalkingIn_def Let_def split: target.split)

lemma updateHappy_fields:
  "c_patience (updateHappy c d) = c_patience c"
  "c_maxPatience (updateHappy c d) = c_maxPatience c"
  "c_isServed (updateHappy c d) = c_isServed c"
  "c_state (updateHappy c d) = (if c_frame c \<ge> 3 then WALKING_OUT else c_state c)"
  "c_isLeaving (updateHappy c d) = (c_frame c \<ge> 3 \<or> c_isLeaving c)"
  by (simp_all add: updateHappy_def)

lemma updateLeaving_fields:
  "c_patience (updateLeaving c d) = c_patience c"
  "c_maxPatience (updateLeaving c d) = c_maxPatience c"
  "c_isServed (updateLeaving c d) = c_isServed c"
  "c_state (updateLeaving c d) = c_state c"
  "c_isLeaving (updateLeaving c d) = c_isLeaving c"
  by (simp_all add: updateLeaving_def Let_def)

lemma decayed_bounds:
  "0 \<le> decayed c d D"
  "0 \<le> d \<Longrightarrow> 0 \<le> D \<Longrightarrow> 0 \<le> c_patience c \<Longrightarrow> decayed c d D \<le> c_patience c"
  by (simp_all add: decayed_def PATIENCE_DECAY_RATE_def)

lemma dispatch_maxPatience: "c_maxPatience (customer_dispatch c d D) = c_maxPatience c"
  unfolding customer_dispatch_def
  by (cases "c_state c")
    (simp_all add: updateWalkingIn_fields updateHappy_fields updateLeaving_fields
      updateWaiting_maxPatience)

lemma dispatch_patience:
  "c_patience (customer_dispatch c d D) = (if waiting c then decayed c d D else c_patience c)"
  unfolding customer_dispatch_def waiting_def
  by (cases "c_state c")
    (simp_all add: updateWalkingIn_fields updateHappy_fields updateLeaving_fields
      updateWaiting_patience)

lemma dispatch_ok: "customer_ok c \<Longrightarrow> customer_ok (customer_dispatch c d D)"
proof -
  assume ok: "customer_ok c"
  show ?thesis
  proof (cases "c_state c")
    case WALKING_IN
    with ok updateWalkingIn_fields(5) [of c d] show ?thesis
      by (auto simp add: customer_ok_def customer_dispatch_def updateWalkingIn_fields)
  next
    case IDLE
    with ok show ?thesis
      by (simp add: customer_ok_def customer_dispatch_def updateWaiting_state
          updateWaiting_isLeaving updateWaiting_patience updateWaiting_maxPatience
          decayed_bounds)
  next
    case IMPATIENT
    with ok show ?thesis
      by (simp add: customer_ok_def customer_dispatch_def updateWaiting_state
          updateWaiting_isLeaving updateWaiting_patience updateWaiting_maxPatience
          decayed_bounds)
  next
    case ANGRY
    with ok show ?thesis
      by (simp add: customer_ok_def customer_dispatch_def updateWaiting_state
          updateWaiting_isLeaving updateWaiting_patience updateWaiting_maxPatience
          decayed_bounds)
  next
    case HAPPY
    with ok show ?thesis
      by (simp add: customer_ok_def customer_dispatch_def updateHappy_fields)
  next
    case WALKING_OUT
    with ok show ?thesis
      by (simp add: customer_ok_def customer_dispatch_def updateLeaving_fields)
  next
    case STORMING_OFF
    with ok show ?thesis
      by (simp add: customer_ok_def customer_dispatch_def updateLeaving_fields)
  qed
qed

lemma dispatch_rank: "mood_rank (c_state c) \<le> mood_rank (c_state (customer_dispatch c d D))"
proof (cases "c_state c")
  case WALKING_IN
  with updateWalkingIn_fields(5) [of c d] show ?thesis
    by (auto simp add: customer_dispatch_def)
qed (simp_all add: customer_dispatch_def updateWaiting_state updateHappy_fields
    updateLeaving_fields)

lemma dispatch_rank_waiting:
  "1 \<le> mood_rank (c_state c) \<Longrightarrow> mood_rank (c_state c) \<le> 4 \<Longrightarrow>
   mood_rank (c_state (customer_dispatch c d D)) \<le> 4"
  by (cases "c_state c")
    (simp_all add: customer_dispatch_def updateWaiting_state updateLeaving_fields)

lemma waiting_animate [simp]: "waiting (customer_animate c d) = waiting c"
  by (simp add: waiting_def)

lemma ok_animate [simp]: "customer_ok (customer_animate c d) = customer_ok c"
  by (simp add: customer_ok_def)

lemma ok_shake [simp]: "customer_ok (customer_shake c r) = customer_ok c"
  by (simp add: customer_ok_def)

lemma decayed_animate [simp]: "decayed (customer_animate c d') d D = decayed c d D"
  by (simp add: decayed_def)

lemma update_ok: "customer_ok c \<Longrightarrow> customer_ok (Customer_update c d D r)"
  by (simp add: Customer_update_def dispatch_ok)

lemma update_patience:
  "c_patience (Customer_update c d D r) = (if waiting c then decayed c d D else c_patience c)"
  by (simp add: Customer_update_def dispatch_patience)

lemma update_maxPatience: "c_maxPatience (Customer_update c d D r) = c_maxPatience c"
  by (simp add: Customer_update_def dispatch_maxPatience)

lemma update_rank:
  "mood_rank (c_state c) \<le> mood_rank (c_state (Customer_update c d D r))"
  using dispatch_rank [of "customer_animate c d" d D] by (simp add: Customer_update_def)

lemma update_rank_waiting:
  "1 \<le> mood_rank (c_state c) \<Longrightarrow> mood_rank (c_state c) \<le> 4 \<Longrightarrow>
   mood_rank (c_state (Customer_update c d D r)) \<le> 4"
  using dispatch_rank_waiting [of "customer_animate c d" d D] by (simp add: Customer_update_def)

lemma update_waiting_state:
  "waiting c \<Longrightarrow> c_state (Customer_update c d D r) =
    (if decayed c d D / c_maxPatience c * 100 \<le> 0
       then (if c_isLeaving c then c_state c else STORMING_OFF)
      else if decayed c d D / c_maxPatience c * 100 < 25 \<and> c_state c \<noteq> ANGRY then ANGRY
      else if decayed c d D / c_maxPatience c * 100 < 50 \<and> c_state c = IDLE then IMPATIENT
      else c_state c)"
  using waiting_dispatch [of "customer_animate c d" d D] updateWaiting_state [of "customer_animate c d" d D]
  by (simp add: Customer_update_def)

lemma update_waiting_isLeaving:
  "waiting c \<Longrightarrow> c_isLeaving (Customer_update c d D r) =
    (c_isLeaving c \<or> decayed c d D / c_maxPatience c * 100 \<le> 0)"
  using waiting_dispatch [of "customer_animate c d" d D]
    updateWaiting_isLeaving [of "customer_animate c d" d D]
  by (simp add: Customer_update_def)

lemma update_patience_le:
  "0 \<le> d \<Longrightarrow> 0 \<le> D \<Longrightarrow> customer_ok c \<Longrightarrow> c_patience (Customer_update c d D r) \<le> c_patience c"
  by (simp add: update_patience decayed_bounds customer_ok_def)

lemma updates_append:
  "Customer_updates c (ts @ us) = Customer_updates (Customer_updates c ts) us"
  by (induction c ts rule: Customer_updates.induct) simp_all

lemma updates_ok: "customer_ok c \<Longrightarrow> customer_ok (Customer_updates c ts)"
  by (induction c ts rule: Customer_updates.induct) (simp_all add: update_ok)

lemma updates_patience_le:
  "customer_ok c \<Longrightarrow> ticks_ok ts \<Longrightarrow> c_patience (Customer_updates c ts) \<le> c_patience c"
proof (induction c ts rule: Customer_updates.induct)
  case (1 c)
  then show ?case by simp
next
  case (2 c d D r ticks)
  then have "c_patience (Customer_updates (Customer_update c d D r) ticks)
      \<le> c_patience (Customer_update c d D r)"
    by (simp add: update_ok ticks_ok_def)
  moreover from 2 have "c_patience (Customer_update c d D r) \<le> c_patience c"
    by (simp add: update_patience_le ticks_ok_def)
  ultimately show ?case by simp
qed

lemma updates_rank:
  "mood_rank (c_state c) \<le> mood_rank (c_state (Customer_updates c ts))"
proof (induction c ts rule: Customer_updates.induct)
  case (1 c)
  then show ?case by simp
next
  case (2 c d D r ticks)
  with update_rank [of c d D r] show ?case by simp
qed

lemma updates_rank_waiting:
  "1 \<le> mood_rank (c_state c) \<Longrightarrow> mood_rank (c_state c) \<le> 4 \<Longrightarrow>
   mood_rank (c_state (Customer_updates c ts)) \<le> 4"
proof (induction c ts rule: Customer_updates.induct)
  case (1 c)
  then show ?case by simp
next
  case (2 c d D r ticks)
  from 2(2) update_rank [of c d D r] have "1 \<le> mood_rank (c_state (Customer_update c d D r))"
    by simp
  with 2 update_rank_waiting [of c d D r] show ?case by simp
qed

lemma waiting_rank: "waiting c \<Longrightarrow> 1 \<le> mood_rank (c_state c) \<and> mood_rank (c_state c) \<le> 4"
  by (auto simp add: waiting_def)

section \<open>Customer: serving and waiting\<close>

text \<open>
  C1.  \<^verbatim>\<open>serve()\<close> returns true exactly when the customer is neither served nor
  leaving, and then the customer is served and happy; on a served or leaving customer it
  returns false and the customer is unchanged in every field.  A second call after any
  first call returns false and changes nothing.
\<close>

theorem C1_serve_once: "(fst (serve c) \<longleftrightarrow> \<not> c_isServed c \<and> \<not> c_isLeaving c) \<and>
   (fst (serve c) \<longrightarrow> c_isServed (snd (serve c)) \<and> c_state (snd (serve c)) = HAPPY) \<and>
   (c_isServed c \<or> c_isLeaving c \<longrightarrow> serve c = (False, c)) \<and>
   serve (snd (serve c)) = (False, snd (serve c))"
  by (simp add: serve_def)

text \<open>The waiting office worker is served by the first call and not by the second.\<close>

theorem C1_serve_once_witness:
  "\<not> c_isServed worker \<and> \<not> c_isLeaving worker \<and> fst (serve worker) \<and>
   c_isServed (snd (serve worker)) \<and> c_state (snd (serve worker)) = HAPPY \<and>
   serve (snd (serve worker)) = (False, snd (serve worker))"
  using C1_serve_once [of worker] by (simp add: worker_fields)

text \<open>
  C2.  For a customer in the idle, impatient or angry state (such a customer is not
  leaving and has a positive patience ceiling, \<open>customer_ok\<close>), one update with delta
  \<open>d\<close> and difficulty \<open>D\<close> stores the patience \<open>max 0 (patience - 1.5 * D * d / 1000)\<close>;
  with that patience as a percent of the ceiling, the customer storms off (and is
  leaving) at or below 0, turns angry below 25 unless already angry, turns impatient
  below 50 if idle, and keeps its mood otherwise.  Along any run of ticks with positive
  deltas the patience never rises and the mood never moves back: after more ticks the
  rank of the state (idle, impatient, angry, storming off) is at least what it was, and
  no other state is entered.
\<close>

theorem C2_waiting_update:
  assumes "waiting c" and "customer_ok c"
  shows "c_patience (Customer_update c d D r) = max 0 (c_patience c - 1.5 * D * (d / 1000)) \<and>
    c_state (Customer_update c d D r) =
      (if getPatiencePercent (Customer_update c d D r) \<le> 0 then STORMING_OFF
       else if getPatiencePercent (Customer_update c d D r) < 25 \<and> c_state c \<noteq> ANGRY then ANGRY
       else if getPatiencePercent (Customer_update c d D r) < 50 \<and> c_state c = IDLE then IMPATIENT
       else c_state c) \<and>
    (c_isLeaving (Customer_update c d D r) \<longleftrightarrow> getPatiencePercent (Customer_update c d D r) \<le> 0) \<and>
    (ticks_ok (ts @ us) \<longrightarrow>
       c_patience (Customer_updates c (ts @ us)) \<le> c_patience (Customer_updates c ts) \<and>
       mood_rank (c_state (Customer_updates c ts)) \<le> mood_rank (c_state (Customer_updates c (ts @ us))) \<and>
       mood_rank (c_state (Customer_updates c (ts @ us))) \<le> mood_rank STORMING_OFF)"
proof -
  from assms have nl: "\<not> c_isLeaving c"
    by (auto simp add: customer_ok_def waiting_def)
  have pct: "getPatiencePercent (Customer_update c d D r) = decayed c d D / c_maxPatience c * 100"
    using assms(1) by (simp add: getPatiencePercent_def update_patience update_maxPatience)
  have p: "c_patience (Customer_update c d D r) = max 0 (c_patience c - 1.5 * D * (d / 1000))"
    using assms(1) by (simp add: update_patience decayed_def PATIENCE_DECAY_RATE_def)
  have s: "c_state (Customer_update c d D r) =
      (if getPatiencePercent (Customer_update c d D r) \<le> 0 then STORMING_OFF
       else if getPatiencePercent (Customer_update c d D r) < 25 \<and> c_state c \<noteq> ANGRY then ANGRY
       else if getPatiencePercent (Customer_update c d D r) < 50 \<and> c_state c = IDLE then IMPATIENT
       else c_state c)"
    unfolding pct using assms(1) nl by (simp only: update_waiting_state if_False)
  have l: "c_isLeaving (Customer_update c d D r) \<longleftrightarrow> getPatiencePercent (Customer_update c d D r) \<le> 0"
    unfolding pct using assms(1) nl by (simp only: update_waiting_isLeaving simp_thms)
  have run: "ticks_ok (ts @ us) \<longrightarrow>
       c_patience (Customer_updates c (ts @ us)) \<le> c_patience (Customer_updates c ts) \<and>
       mood_rank (c_state (Customer_updates c ts)) \<le> mood_rank (c_state (Customer_updates c (ts @ us))) \<and>
       mood_rank (c_state (Customer_updates c (ts @ us))) \<le> mood_rank STORMING_OFF"
  proof
    assume t: "ticks_ok (ts @ us)"
    then have tu: "ticks_ok us" by (simp add: ticks_ok_def)
    have "customer_ok (Customer_updates c ts)" using assms(2) by (rule updates_ok)
    then have 1: "c_patience (Customer_updates c (ts @ us)) \<le> c_patience (Customer_updates c ts)"
      using tu by (simp add: updates_append updates_patience_le)
    have 2: "mood_rank (c_state (Customer_updates c ts)) \<le> mood_rank (c_state (Customer_updates c (ts @ us)))"
      by (simp add: updates_append updates_rank)
    have 3: "mood_rank (c_state (Customer_updates c (ts @ us))) \<le> mood_rank STORMING_OFF"
      using waiting_rank [OF assms(1)] updates_rank_waiting [of c "ts @ us"] by simp
    from 1 2 3 show "c_patience (Customer_updates c (ts @ us)) \<le> c_patience (Customer_updates c ts) \<and>
       mood_rank (c_state (Customer_updates c ts)) \<le> mood_rank (c_state (Customer_updates c (ts @ us))) \<and>
       mood_rank (c_state (Customer_updates c (ts @ us))) \<le> mood_rank STORMING_OFF" by simp
  qed
  from p s l run show ?thesis by (simp only: simp_thms)
qed

text \<open>
  The office worker with 30 of 100 patience: one second at difficulty 1 leaves 28.5,
  below 50 percent, and the idle customer turns impatient.
\<close>

theorem C2_waiting_update_witness:
  "waiting worker \<and> customer_ok worker \<and>
   ticks_ok ([(1000, 1, 1 / 2)] @ [(5000, 1, 1 / 2)]) \<and>
   c_patience (Customer_update worker 1000 1 (1 / 2)) = 28.5 \<and>
   c_state (Customer_update worker 1000 1 (1 / 2)) = IMPATIENT \<and>
   \<not> c_isLeaving (Customer_update worker 1000 1 (1 / 2)) \<and>
   c_patience (Customer_updates worker ([(1000, 1, 1 / 2)] @ [(5000, 1, 1 / 2)]))
     \<le> c_patience (Customer_updates worker [(1000, 1, 1 / 2)])"
  using C2_waiting_update [of worker 1000 1 "1 / 2" "[(1000, 1, 1 / 2)]" "[(5000, 1, 1 / 2)]"]
  by (simp add: worker_fields waiting_def customer_ok_def ticks_ok_def getPatiencePercent_def
      update_maxPatience)

section \<open>Game (Game.js)\<close>

text \<open>
  The engine's state.  Of the fields of \<^verbatim>\<open>Game\<close> the model keeps those the update loop,
  the spawn policy and the scoring read or write; canvas, sprites, particle effects,
  sounds, the mouse position and the mute flag are presentation.  A slot of
  \<^verbatim>\<open>customerSlots\<close> holds \<^verbatim>\<open>null\<close> or a reference to a customer: the reference is the
  customer's id.  \<open>g_customerIdCounter\<close> is the counter \<^verbatim>\<open>customerIdCounter\<close> of the
  module \<^verbatim>\<open>Customer.js\<close>.
\<close>

datatype round_state = MENU | PLAYING | PAUSED | GAMEOVER

text \<open>
  A record as \<^verbatim>\<open>fetchIncomingMessages\<close> returns it (the fields the game reads; an absent
  string is the empty string, which \<^verbatim>\<open>||\<close> treats alike), and a record of the queue
  \<^verbatim>\<open>pendingRealMessages\<close>.
\<close>

record incoming_message =
  in_id :: string
  in_phone :: string
  in_message :: string
  in_sender_name :: string

record pending_message =
  p_name :: string
  p_message :: string
  p_phone :: string
  p_isReal :: bool
  p_messageId :: string

record game =
  g_state :: round_state
  g_score :: int
  g_customersServed :: nat
  g_customersLost :: nat
  g_comboCount :: nat
  g_maxCombo :: nat
  g_difficulty :: real
  g_lastSpawnTime :: real
  g_comboTimer :: real
  g_customers :: "customer list"
  g_bottles :: "bottle list"
  g_customerSlots :: "nat option list"
  g_selectedBottleIndex :: "nat option"
  g_demoMode :: bool
  g_lastApiPoll :: real
  g_apiPollInterval :: real
  g_pendingRealMessages :: "pending_message list"
  g_customerIdCounter :: nat

text \<open>
  The constructor together with the synchronous start of \<^verbatim>\<open>init()\<close>, which creates the
  bottles; \<open>idCounter\<close> is the module's customer counter at that moment.
\<close>

definition Game_new :: "nat \<Rightarrow> game" where
  "Game_new idCounter =
    \<lparr>g_state = MENU,
     g_score = 0,
     g_customersServed = 0,
     g_customersLost = 0,
     g_comboCount = 0,
     g_maxCombo = 0,
     g_difficulty = 1,
     g_lastSpawnTime = 0,
     g_comboTimer = 0,
     g_customers = [],
     g_bottles = map (\<lambda>(index, ty). Bottle_new (bt_id ty) index) (enumerate 0 BOTTLE_TYPES),
     g_customerSlots = replicate MAX_CUSTOMERS None,
     g_selectedBottleIndex = None,
     g_demoMode = True,
     g_lastApiPoll = 0,
     g_apiPollInterval = 3000,
     g_pendingRealMessages = [],
     g_customerIdCounter = idCounter\<rparr>"

text \<open>\<^verbatim>\<open>Array.prototype.findIndex\<close>: the first index that satisfies, \<open>None\<close> for -1.\<close>

fun findIndex :: "('a \<Rightarrow> bool) \<Rightarrow> 'a list \<Rightarrow> nat option" where
  "findIndex P [] = None"
| "findIndex P (x # xs) = (if P x then Some 0 else map_option Suc (findIndex P xs))"

text \<open>
  \<^verbatim>\<open>pollIncomingMessages\<close> is asynchronous: the call made by \<^verbatim>\<open>update\<close> changes nothing
  before its \<^verbatim>\<open>await\<close>, and the rest of its body runs later, in one piece, on the result
  \<^verbatim>\<open>{success, messages}\<close> of the fetch.  \<open>enqueue_message\<close> is the body of its loop.
\<close>

definition enqueue_message :: "game \<Rightarrow> incoming_message \<Rightarrow> game" where
  "enqueue_message g msg =
    (let alreadyExists =
           (list_ex (\<lambda>c. c_phone c = in_phone msg) (g_customers g) \<or>
            list_ex (\<lambda>m. p_phone m = in_phone msg) (g_pendingRealMessages g))
     in if \<not> alreadyExists then
          g\<lparr>g_pendingRealMessages := g_pendingRealMessages g @
              [\<lparr>p_name = (if in_sender_name msg \<noteq> [] then in_sender_name msg else in_phone msg),
                p_message = (if take 50 (in_message msg) \<noteq> [] then take 50 (in_message msg)
                             else ''New message''),
                p_phone = in_phone msg,
                p_isReal = True,
                p_messageId = in_id msg\<rparr>]\<rparr>
        else g)"

definition pollIncomingMessages :: "game \<Rightarrow> bool \<Rightarrow> incoming_message list \<Rightarrow> game" where
  "pollIncomingMessages g success messages =
    (if success \<and> messages \<noteq> [] then foldl enqueue_message g messages else g)"

definition spawnCustomer :: "game \<Rightarrow> spawn_random \<Rightarrow> real \<Rightarrow> game" where
  "spawnCustomer g rnd now =
    (case findIndex (\<lambda>slot. slot = None) (g_customerSlots g) of
       None \<Rightarrow> g
     | Some emptySlotIndex \<Rightarrow>
         (let options =
                (case g_pendingRealMessages g of
                   msgData # rest \<Rightarrow>
                     \<lparr>o_typeIndex = None, o_name = p_name msgData, o_message = p_message msgData,
                      o_phone = p_phone msgData, o_isReal = True\<rparr>
                 | [] \<Rightarrow> no_options);
              customer =
                assignSlot (Customer_new (g_customerIdCounter g) options rnd now) emptySlotIndex
          in g\<lparr>g_pendingRealMessages := tl (g_pendingRealMessages g),
               g_customerIdCounter := g_customerIdCounter g + 1,
               g_customerSlots := (g_customerSlots g)[emptySlotIndex := Some (c_id customer)],
               g_customers := g_customers g @ [customer]\<rparr>))"

definition gameOver :: "game \<Rightarrow> game" where
  "gameOver g = g\<lparr>g_state := GAMEOVER\<rparr>"

text \<open>The blocks of \<^verbatim>\<open>update(deltaTime)\<close>, in the order of the source.\<close>

definition update_combo :: "real \<Rightarrow> game \<Rightarrow> game" where
  "update_combo deltaTime g =
    (if g_comboCount g > 0 then
       (let g1 = g\<lparr>g_comboTimer := g_comboTimer g - deltaTime\<rparr>
        in if g_comboTimer g1 \<le> 0 then g1\<lparr>g_comboCount := 0\<rparr> else g1)
     else g)"

definition update_poll :: "real \<Rightarrow> game \<Rightarrow> game" where
  "update_poll deltaTime g =
    (let g1 = g\<lparr>g_lastApiPoll := g_lastApiPoll g + deltaTime\<rparr>
     in if \<not> g_demoMode g1 \<and> g_lastApiPoll g1 \<ge> g_apiPollInterval g1
        then g1\<lparr>g_lastApiPoll := 0\<rparr> else g1)"

definition update_spawn :: "real \<Rightarrow> spawn_random \<Rightarrow> real \<Rightarrow> game \<Rightarrow> game" where
  "update_spawn deltaTime rnd now g =
    (let g1 = g\<lparr>g_lastSpawnTime := g_lastSpawnTime g + deltaTime\<rparr>;
         spawnInterval = max MIN_SPAWN_INTERVAL (BASE_SPAWN_INTERVAL / g_difficulty g1)
     in if g_lastSpawnTime g1 \<ge> spawnInterval
        then spawnCustomer (g1\<lparr>g_lastSpawnTime := 0\<rparr>) rnd now else g1)"

text \<open>\<open>shake i\<close> is what \<^verbatim>\<open>Math.random()\<close> returns in the update of the customer at index \<open>i\<close>.\<close>

definition update_customers :: "real \<Rightarrow> (nat \<Rightarrow> real) \<Rightarrow> game \<Rightarrow> game" where
  "update_customers deltaTime shake g =
    g\<lparr>g_customers :=
        map (\<lambda>(i, customer). Customer_update customer deltaTime (g_difficulty g) (shake i))
          (enumerate 0 (g_customers g))\<rparr>"

fun checkLost :: "customer list \<Rightarrow> game \<Rightarrow> customer list \<times> game" where
  "checkLost [] g = ([], g)"
| "checkLost (customer # rest) g =
    (if c_state customer = STORMING_OFF \<and> \<not> c_countedAsLost customer then
       (let g1 = g\<lparr>g_customersLost := g_customersLost g + 1, g_comboCount := 0\<rparr>;
            g2 = (if g_customersLost g1 \<ge> MAX_LOST then gameOver g1 else g1);
            r = checkLost rest g2
        in (customer\<lparr>c_countedAsLost := True\<rparr> # fst r, snd r))
     else (let r = checkLost rest g in (customer # fst r, snd r)))"

definition update_lost :: "game \<Rightarrow> game" where
  "update_lost g =
    (let r = checkLost (g_customers g) g in (snd r)\<lparr>g_customers := fst r\<rparr>)"

definition freeSlot :: "nat option list \<Rightarrow> customer \<Rightarrow> nat option list" where
  "freeSlot slots customer =
    (if c_isRemovable customer then
       (case c_slotIndex customer of Some i \<Rightarrow> slots[i := None] | None \<Rightarrow> slots)
     else slots)"

definition update_remove :: "game \<Rightarrow> game" where
  "update_remove g =
    g\<lparr>g_customerSlots := foldl freeSlot (g_customerSlots g) (g_customers g),
      g_customers := filter (\<lambda>customer. \<not> c_isRemovable customer) (g_customers g)\<rparr>"

definition update_bottles :: "real \<Rightarrow> real \<Rightarrow> game \<Rightarrow> game" where
  "update_bottles deltaTime now g =
    g\<lparr>g_bottles := map (\<lambda>bottle. Bottle_update bottle deltaTime now) (g_bottles g)\<rparr>"

definition update_difficulty :: "game \<Rightarrow> game" where
  "update_difficulty g =
    (if g_customersServed g > 0 \<and> g_customersServed g mod 10 = 0
     then g\<lparr>g_difficulty := min 3 (1 + real (g_customersServed g) / 20)\<rparr> else g)"

definition Game_update :: "game \<Rightarrow> real \<Rightarrow> real \<Rightarrow> spawn_random \<Rightarrow> (nat \<Rightarrow> real) \<Rightarrow> game" where
  "Game_update g deltaTime now rnd shake =
    (if g_state g \<noteq> PLAYING then g
     else update_difficulty (update_bottles deltaTime now (update_remove (update_lost
            (update_customers deltaTime shake (update_spawn deltaTime rnd now
              (update_poll deltaTime (update_combo deltaTime g))))))))"

text \<open>
  \<^verbatim>\<open>serveCustomer(customer)\<close> is asynchronous.  Up to \<^verbatim>\<open>customer.serve()\<close> it runs at once:
  \<open>serveCustomer_begin\<close>, \<open>None\<close> for each early return, otherwise the game with the
  customer served, the customer and the index of the bottle the call holds on to.  For a
  real customer outside demo mode it then awaits the delivery; the rest,
  \<open>serveCustomer_finish\<close>, runs later on the game as it is by then (the delivery's
  outcome is only logged).  For every other customer nothing is awaited and the two run
  back to back: \<open>serveCustomer\<close>.  The customer is the one at index \<open>ci\<close> of
  \<^verbatim>\<open>customers\<close>; an index beyond the customers or beyond the shelf, which the engine
  never passes, is an early return here.
\<close>

definition serveCustomer_begin :: "game \<Rightarrow> nat \<Rightarrow> real \<Rightarrow> (game \<times> customer \<times> nat) option" where
  "serveCustomer_begin g ci now =
    (case g_selectedBottleIndex g of
       None \<Rightarrow> None
     | Some bi \<Rightarrow>
         if ci \<ge> length (g_customers g) \<or> bi \<ge> length (g_bottles g) then None
         else if bt_locked (b_type (g_bottles g ! bi)) then None
         else if isOnCooldown (g_bottles g ! bi) now then None
         else if \<not> fst (serve (g_customers g ! ci)) then None
         else Some (g\<lparr>g_customers := (g_customers g)[ci := snd (serve (g_customers g ! ci))]\<rparr>,
                    snd (serve (g_customers g ! ci)), bi))"

definition servePoints :: "game \<Rightarrow> customer \<Rightarrow> int" where
  "servePoints g customer =
    (let patienceBonus = \<lfloor>getPatiencePercent customer * PATIENCE_BONUS_MULTIPLIER\<rfloor>;
         comboBonus = int (g_comboCount g) * COMBO_BONUS
     in BASE_SCORE + patienceBonus + comboBonus)"

definition serveCustomer_finish :: "game \<Rightarrow> customer \<Rightarrow> nat \<Rightarrow> real \<Rightarrow> game" where
  "serveCustomer_finish g customer bi now =
    (let points = servePoints g customer
     in g\<lparr>g_bottles := (g_bottles g)[bi := snd (use (g_bottles g ! bi) now)],
          g_score := g_score g + points,
          g_customersServed := g_customersServed g + 1,
          g_comboCount := g_comboCount g + 1,
          g_maxCombo := max (g_maxCombo g) (g_comboCount g + 1),
          g_comboTimer := COMBO_TIMEOUT\<rparr>)"

definition serveCustomer :: "game \<Rightarrow> nat \<Rightarrow> real \<Rightarrow> game" where
  "serveCustomer g ci now =
    (case serveCustomer_begin g ci now of
       None \<Rightarrow> g
     | Some (g1, customer, bi) \<Rightarrow> serveCustomer_finish g1 customer bi now)"

definition startGame :: "game \<Rightarrow> game" where
  "startGame g =
    g\<lparr>g_state := PLAYING,
      g_score := 0,
      g_customersServed := 0,
      g_customersLost := 0,
      g_comboCount := 0,
      g_maxCombo := 0,
      g_difficulty := 1,
      g_customers := [],
      g_customerSlots := replicate MAX_CUSTOMERS None,
      g_selectedBottleIndex := None,
      g_lastSpawnTime := 0,
      g_lastApiPoll := 0,
      g_pendingRealMessages := [],
      g_bottles := map (\<lambda>bottle. bottle\<lparr>b_cooldownEnd := 0,
          b_state := (if bt_locked (b_type bottle) then B_EMPTY else B_IDLE),
          b_fillLevel := (if bt_locked (b_type bottle) then 0 else 1)\<rparr>) (g_bottles g)\<rparr>"

definition pause :: "game \<Rightarrow> game" where
  "pause g = (if g_state g = PLAYING then g\<lparr>g_state := PAUSED\<rparr> else g)"

definition resume :: "game \<Rightarrow> game" where
  "resume g = (if g_state g = PAUSED then g\<lparr>g_state := PLAYING\<rparr> else g)"

text \<open>
  What \<^verbatim>\<open>handleClick\<close> does to the game for a click on the bottle at \<open>index\<close> while
  playing (a click on a customer calls \<^verbatim>\<open>serveCustomer\<close>), and the assignment to
  \<^verbatim>\<open>demoMode\<close> made when \<^verbatim>\<open>init()\<close> or the session poll of \<^verbatim>\<open>App.jsx\<close> learns the
  connection status.
\<close>

definition selectBottle :: "game \<Rightarrow> nat \<Rightarrow> game" where
  "selectBottle g index =
    (if g_state g = PLAYING \<and> index < length (g_bottles g) \<and>
        \<not> bt_locked (b_type (g_bottles g ! index))
     then g\<lparr>g_selectedBottleIndex := Some index\<rparr> else g)"

definition setDemoMode :: "game \<Rightarrow> bool \<Rightarrow> game" where
  "setDemoMode g value = g\<lparr>g_demoMode := value\<rparr>"

text \<open>
  The operations on a game, and the games they reach from a new one.  \<open>Start\<close> is
  \<^verbatim>\<open>start()\<close>, \<^verbatim>\<open>restart()\<close> and \<^verbatim>\<open>startGame()\<close>.  The random numbers of a tick are in
  \<open>[0, 1)\<close>.  The late half of a serve may come with any customer that was served and
  any bottle of the shelf: the model does not track which serves are in flight.
\<close>

datatype operation =
  Start
| Tick real real spawn_random "nat \<Rightarrow> real"
| Poll bool "incoming_message list"
| Serve nat real
| ServeBegin nat real
| ServeFinish customer nat real
| Select nat
| Pause
| Resume
| SetDemo bool

fun exec :: "game \<Rightarrow> operation \<Rightarrow> game" where
  "exec g Start = startGame g"
| "exec g (Tick deltaTime now rnd shake) = Game_update g deltaTime now rnd shake"
| "exec g (Poll success messages) = pollIncomingMessages g success messages"
| "exec g (Serve ci now) = serveCustomer g ci now"
| "exec g (ServeBegin ci now) =
     (case serveCustomer_begin g ci now of None \<Rightarrow> g | Some (g1, customer, bi) \<Rightarrow> g1)"
| "exec g (ServeFinish customer bi now) = serveCustomer_finish g customer bi now"
| "exec g (Select index) = selectBottle g index"
| "exec g Pause = pause g"
| "exec g Resume = resume g"
| "exec g (SetDemo value) = setDemoMode g value"

fun op_ok :: "operation \<Rightarrow> bool" where
  "op_ok (Tick deltaTime now rnd shake) =
     (random_ok (r_type rnd) \<and> random_ok (r_name rnd) \<and> random_ok (r_message rnd))"
| "op_ok (ServeFinish customer bi now) = (customer_ok customer \<and> c_isServed customer)"
| "op_ok other = True"

inductive reachable :: "game \<Rightarrow> bool" where
  reachable_new: "reachable (Game_new idCounter)"
| reachable_exec: "reachable g \<Longrightarrow> op_ok operation \<Longrightarrow> reachable (exec g operation)"

section \<open>Game: the slots and the customers that stand at them\<close>

lemma findIndex_Some:
  "findIndex P xs = Some i \<Longrightarrow> i < length xs \<and> P (xs ! i) \<and> (\<forall>j<i. \<not> P (xs ! j))"
proof (induction xs arbitrary: i)
  case Nil
  then show ?case by simp
next
  case (Cons x xs)
  show ?case
  proof (cases "P x")
    case True
    with Cons.prems show ?thesis by simp
  next
    case False
    with Cons.prems obtain k where k: "findIndex P xs = Some k" "i = Suc k"
      by auto
    from Cons.IH [OF k(1)] False k(2) show ?thesis
      by (auto simp add: less_Suc_eq_0_disj)
  qed
qed

lemma findIndex_None: "findIndex P xs = None \<longleftrightarrow> (\<forall>x\<in>set xs. \<not> P x)"
  by (induction xs) auto

lemma spawnCustomer_full:
  "findIndex (\<lambda>slot. slot = None) (g_customerSlots g) = None \<Longrightarrow> spawnCustomer g rnd now = g"
  by (simp add: spawnCustomer_def)

text \<open>
  The customer a successful \<^verbatim>\<open>spawnCustomer\<close> creates for the free slot \<open>i\<close>: from the
  head of the pending queue when there is one, a demo customer otherwise.
\<close>

definition spawned :: "game \<Rightarrow> spawn_random \<Rightarrow> real \<Rightarrow> nat \<Rightarrow> customer" where
  "spawned g rnd now i =
    assignSlot (Customer_new (g_customerIdCounter g)
      (case g_pendingRealMessages g of
         msgData # rest \<Rightarrow>
           \<lparr>o_typeIndex = None, o_name = p_name msgData, o_message = p_message msgData,
            o_phone = p_phone msgData, o_isReal = True\<rparr>
       | [] \<Rightarrow> no_options) rnd now) i"

lemma spawnCustomer_free:
  assumes "findIndex (\<lambda>slot. slot = None) (g_customerSlots g) = Some i"
  shows "g_customers (spawnCustomer g rnd now) = g_customers g @ [spawned g rnd now i]"
    and "g_customerSlots (spawnCustomer g rnd now) =
           (g_customerSlots g)[i := Some (c_id (spawned g rnd now i))]"
    and "g_pendingRealMessages (spawnCustomer g rnd now) = tl (g_pendingRealMessages g)"
    and "g_comboCount (spawnCustomer g rnd now) = g_comboCount g"
    and "g_maxCombo (spawnCustomer g rnd now) = g_maxCombo g"
    and "g_score (spawnCustomer g rnd now) = g_score g"
    and "g_state (spawnCustomer g rnd now) = g_state g"
    and "g_customersLost (spawnCustomer g rnd now) = g_customersLost g"
    and "g_difficulty (spawnCustomer g rnd now) = g_difficulty g"
    and "g_customersServed (spawnCustomer g rnd now) = g_customersServed g"
  using assms by (simp_all add: spawnCustomer_def spawned_def Let_def)

lemma spawned_fields:
  "c_slotIndex (spawned g rnd now i) = Some i"
  "c_state (spawned g rnd now i) = WALKING_IN"
  "\<not> c_isLeaving (spawned g rnd now i)"
  "c_patience (spawned g rnd now i) = c_maxPatience (spawned g rnd now i)"
  "c_phone (spawned g rnd now i) =
     (case g_pendingRealMessages g of
        msgData # rest \<Rightarrow> if p_phone msgData \<noteq> [] then p_phone msgData
                           else ''demo_'' @ show_nat (g_customerIdCounter g + 1)
      | [] \<Rightarrow> ''demo_'' @ show_nat (g_customerIdCounter g + 1))"
  by (simp_all add: spawned_def assignSlot_def Customer_new_def Let_def no_options_def
      split: list.split)

text \<open>
  The occupied slots, and the relation between slots and customers that every operation
  keeps: six slots; the customers' slot indices are set, pairwise distinct, and exactly
  the indices of the slots that are not \<^verbatim>\<open>null\<close>.
\<close>

definition occupied :: "nat option list \<Rightarrow> nat" where
  "occupied slots = length (filter (\<lambda>slot. slot \<noteq> None) slots)"

definition slots_inv :: "game \<Rightarrow> bool" where
  "slots_inv g =
    (length (g_customerSlots g) = MAX_CUSTOMERS \<and>
     distinct (map c_slotIndex (g_customers g)) \<and>
     None \<notin> set (map c_slotIndex (g_customers g)) \<and>
     (\<forall>i. (i < MAX_CUSTOMERS \<and> g_customerSlots g ! i \<noteq> None) =
          (Some i \<in> set (map c_slotIndex (g_customers g)))))"

lemma slots_invI:
  "length sl = MAX_CUSTOMERS \<Longrightarrow> distinct (map c_slotIndex cs) \<Longrightarrow>
   None \<notin> set (map c_slotIndex cs) \<Longrightarrow>
   (\<And>i. (i < MAX_CUSTOMERS \<and> sl ! i \<noteq> None) = (Some i \<in> set (map c_slotIndex cs))) \<Longrightarrow>
   g_customerSlots g = sl \<Longrightarrow> g_customers g = cs \<Longrightarrow> slots_inv g"
  by (simp add: slots_inv_def)

lemma slots_inv_same:
  "slots_inv g \<Longrightarrow> g_customerSlots g' = g_customerSlots g \<Longrightarrow>
   map c_slotIndex (g_customers g') = map c_slotIndex (g_customers g) \<Longrightarrow> slots_inv g'"
  by (simp add: slots_inv_def)

lemma slots_inv_count:
  assumes "slots_inv g"
  shows "occupied (g_customerSlots g) = length (g_customers g)"
proof -
  let ?sl = "g_customerSlots g" and ?ix = "map c_slotIndex (g_customers g)"
  let ?A = "{i. i < length ?sl \<and> ?sl ! i \<noteq> None}"
  from assms have len: "length ?sl = MAX_CUSTOMERS" and d: "distinct ?ix"
    and nn: "None \<notin> set ?ix"
    and iff: "\<And>i. (i < MAX_CUSTOMERS \<and> ?sl ! i \<noteq> None) = (Some i \<in> set ?ix)"
    by (simp_all add: slots_inv_def)
  have "set ?ix = Some ` ?A"
  proof (rule set_eqI)
    fix x
    show "x \<in> set ?ix \<longleftrightarrow> x \<in> Some ` ?A"
    proof (cases x)
      case None
      with nn show ?thesis by auto
    next
      case (Some i)
      with iff [of i] len show ?thesis by auto
    qed
  qed
  then have "card (set ?ix) = card ?A"
    by (simp add: card_image)
  moreover have "card (set ?ix) = length (g_customers g)"
    using d distinct_card [of ?ix] by simp
  moreover have "occupied ?sl = card ?A"
    by (simp add: occupied_def length_filter_conv_card)
  ultimately show ?thesis by simp
qed

lemma occupied_le: "occupied slots \<le> length slots"
  by (simp add: occupied_def)

lemma slots_inv_spawn:
  assumes inv: "slots_inv g"
  shows "slots_inv (spawnCustomer g rnd now)"
proof (cases "findIndex (\<lambda>slot. slot = None) (g_customerSlots g)")
  case None
  with inv show ?thesis by (simp add: spawnCustomer_full)
next
  case (Some i)
  let ?sl = "g_customerSlots g" and ?ix = "map c_slotIndex (g_customers g)"
  let ?c = "spawned g rnd now i"
  from inv have len: "length ?sl = MAX_CUSTOMERS" and d: "distinct ?ix"
    and nn: "None \<notin> set ?ix"
    and iff: "\<And>j. (j < MAX_CUSTOMERS \<and> ?sl ! j \<noteq> None) = (Some j \<in> set ?ix)"
    by (simp_all add: slots_inv_def)
  from findIndex_Some [OF Some] have i: "i < length ?sl" "?sl ! i = None" by simp_all
  from iff [of i] i have fresh: "Some i \<notin> set ?ix" by simp
  show ?thesis
  proof (rule slots_invI [OF _ _ _ _ spawnCustomer_free(2) [OF Some] spawnCustomer_free(1) [OF Some]])
    show "length (?sl[i := Some (c_id ?c)]) = MAX_CUSTOMERS" using len by simp
    show "distinct (map c_slotIndex (g_customers g @ [?c]))"
      using d fresh by (simp add: spawned_fields)
    show "None \<notin> set (map c_slotIndex (g_customers g @ [?c]))"
      using nn by (simp add: spawned_fields)
    fix j
    show "(j < MAX_CUSTOMERS \<and> ?sl[i := Some (c_id ?c)] ! j \<noteq> None) =
          (Some j \<in> set (map c_slotIndex (g_customers g @ [?c])))"
      using iff [of j] i len by (cases "j = i") (auto simp add: spawned_fields)
  qed
qed

lemma freeSlot_length [simp]: "length (foldl freeSlot sl cs) = length sl"
  by (induction cs arbitrary: sl) (simp_all add: freeSlot_def split: option.split)

lemma freeSlot_nth:
  "j < length sl \<Longrightarrow>
   (foldl freeSlot sl cs ! j \<noteq> None) =
   (sl ! j \<noteq> None \<and> \<not> (\<exists>c\<in>set cs. c_isRemovable c \<and> c_slotIndex c = Some j))"
proof (induction cs arbitrary: sl)
  case Nil
  then show ?case by simp
next
  case (Cons c cs)
  have l: "j < length (freeSlot sl c)"
    using Cons.prems by (simp add: freeSlot_def split: option.split)
  have "(freeSlot sl c ! j \<noteq> None) =
        (sl ! j \<noteq> None \<and> \<not> (c_isRemovable c \<and> c_slotIndex c = Some j))"
  proof (cases "c_isRemovable c")
    case False
    then show ?thesis by (simp add: freeSlot_def)
  next
    case True
    show ?thesis
    proof (cases "c_slotIndex c")
      case None
      with True show ?thesis by (simp add: freeSlot_def)
    next
      case (Some i)
      with True Cons.prems show ?thesis
        by (cases "i = j") (simp_all add: freeSlot_def)
    qed
  qed
  with Cons.IH [OF l] show ?case by auto
qed

lemma slots_inv_remove:
  assumes inv: "slots_inv g"
  shows "slots_inv (update_remove g)"
proof -
  let ?sl = "g_customerSlots g" and ?cs = "g_customers g"
  let ?ix = "map c_slotIndex ?cs"
  let ?keep = "filter (\<lambda>customer. \<not> c_isRemovable customer) ?cs"
  from inv have len: "length ?sl = MAX_CUSTOMERS" and d: "distinct ?ix"
    and nn: "None \<notin> set ?ix"
    and iff: "\<And>j. (j < MAX_CUSTOMERS \<and> ?sl ! j \<noteq> None) = (Some j \<in> set ?ix)"
    by (simp_all add: slots_inv_def)
  have inj: "inj_on c_slotIndex (set ?cs)" and dc: "distinct ?cs"
    using d by (simp_all add: distinct_map)
  show ?thesis
  proof (rule slots_invI [of "foldl freeSlot ?sl ?cs" ?keep])
    show "length (foldl freeSlot ?sl ?cs) = MAX_CUSTOMERS" using len by simp
    show "distinct (map c_slotIndex ?keep)"
      using d by (simp add: distinct_map_filter)
    show "None \<notin> set (map c_slotIndex ?keep)" using nn by auto
    show "g_customerSlots (update_remove g) = foldl freeSlot ?sl ?cs"
      by (simp add: update_remove_def)
    show "g_customers (update_remove g) = ?keep"
      by (simp add: update_remove_def)
    fix j
    show "(j < MAX_CUSTOMERS \<and> foldl freeSlot ?sl ?cs ! j \<noteq> None) =
          (Some j \<in> set (map c_slotIndex ?keep))"
    proof (cases "j < MAX_CUSTOMERS")
      case False
      with iff [of j] show ?thesis by auto
    next
      case True
      then have "j < length ?sl" using len by simp
      have e: "(Some j \<in> set ?ix) = (\<exists>c\<in>set ?cs. c_slotIndex c = Some j)"
        by force
      from freeSlot_nth [OF \<open>j < length ?sl\<close>, of ?cs] iff [of j] True
      have l: "(j < MAX_CUSTOMERS \<and> foldl freeSlot ?sl ?cs ! j \<noteq> None) =
          ((\<exists>c\<in>set ?cs. c_slotIndex c = Some j) \<and>
           \<not> (\<exists>c\<in>set ?cs. c_isRemovable c \<and> c_slotIndex c = Some j))"
        unfolding e by simp
      have r: "(Some j \<in> set (map c_slotIndex ?keep)) =
          (\<exists>c\<in>set ?cs. \<not> c_isRemovable c \<and> c_slotIndex c = Some j)"
        by force
      have "((\<exists>c\<in>set ?cs. c_slotIndex c = Some j) \<and>
           \<not> (\<exists>c\<in>set ?cs. c_isRemovable c \<and> c_slotIndex c = Some j)) =
          (\<exists>c\<in>set ?cs. \<not> c_isRemovable c \<and> c_slotIndex c = Some j)"
        using inj unfolding inj_on_def by metis
      with l r show ?thesis by simp
    qed
  qed
qed

section \<open>Game: what the customers keep, and the count of the lost\<close>

text \<open>
  The test of the loop that counts the lost customers, and what the loop does to a
  customer.
\<close>

definition newlyLost :: "customer \<Rightarrow> bool" where
  "newlyLost c = (c_state c = STORMING_OFF \<and> \<not> c_countedAsLost c)"

definition markLost :: "customer \<Rightarrow> customer" where
  "markLost c = (if newlyLost c then c\<lparr>c_countedAsLost := True\<rparr> else c)"

lemma animate_keeps [simp]:
  "c_slotIndex (customer_animate c d) = c_slotIndex c"
  "c_phone (customer_animate c d) = c_phone c"
  "c_countedAsLost (customer_animate c d) = c_countedAsLost c"
  "c_targetX (customer_animate c d) = c_targetX c"
  by (simp_all add: customer_animate_def Let_def)

lemma shake_keeps [simp]:
  "c_slotIndex (customer_shake c r) = c_slotIndex c"
  "c_phone (customer_shake c r) = c_phone c"
  "c_countedAsLost (customer_shake c r) = c_countedAsLost c"
  by (simp_all add: customer_shake_def)

lemma updateWaiting_keeps:
  "c_slotIndex (updateWaiting c d D) = c_slotIndex c"
  "c_phone (updateWaiting c d D) = c_phone c"
  "c_countedAsLost (updateWaiting c d D) = c_countedAsLost c"
  unfolding updateWaiting_def Let_def decayed_def [symmetric]
  by (simp_all add: stormOff_def)

lemma updateWalkingIn_keeps:
  "c_slotIndex (updateWalkingIn c d) = c_slotIndex c"
  "c_phone (updateWalkingIn c d) = c_phone c"
  "c_countedAsLost (updateWalkingIn c d) = c_countedAsLost c"
  by (simp_all add: updateWalkingIn_def Let_def split: target.split)

lemma updateHappy_keeps:
  "c_slotIndex (updateHappy c d) = c_slotIndex c"
  "c_phone (updateHappy c d) = c_phone c"
  "c_countedAsLost (updateHappy c d) = c_countedAsLost c"
  by (simp_all add: updateHappy_def)

lemma updateLeaving_keeps:
  "c_slotIndex (updateLeaving c d) = c_slotIndex c"
  "c_phone (updateLeaving c d) = c_phone c"
  "c_countedAsLost (updateLeaving c d) = c_countedAsLost c"
  by (simp_all add: updateLeaving_def Let_def)

lemma dispatch_keeps:
  "c_slotIndex (customer_dispatch c d D) = c_slotIndex c"
  "c_phone (customer_dispatch c d D) = c_phone c"
  "c_countedAsLost (customer_dispatch c d D) = c_countedAsLost c"
  unfolding customer_dispatch_def
  by (cases "c_state c"; simp add: updateWaiting_keeps updateWalkingIn_keeps updateHappy_keeps
      updateLeaving_keeps)+

lemma Customer_update_keeps:
  "c_slotIndex (Customer_update c d D r) = c_slotIndex c"
  "c_phone (Customer_update c d D r) = c_phone c"
  "c_countedAsLost (Customer_update c d D r) = c_countedAsLost c"
  by (simp_all add: Customer_update_def dispatch_keeps)

lemma serve_keeps:
  "c_slotIndex (snd (serve c)) = c_slotIndex c"
  "c_phone (snd (serve c)) = c_phone c"
  "c_countedAsLost (snd (serve c)) = c_countedAsLost c"
  "c_patience (snd (serve c)) = c_patience c"
  "c_maxPatience (snd (serve c)) = c_maxPatience c"
  by (simp_all add: serve_def)

lemma serve_ok: "customer_ok c \<Longrightarrow> customer_ok (snd (serve c))"
  by (auto simp add: serve_def customer_ok_def)

lemma serve_state:
  "c_state (snd (serve c)) = (if c_isServed c \<or> c_isLeaving c then c_state c else HAPPY)"
  by (simp add: serve_def)

lemma markLost_keeps [simp]:
  "c_slotIndex (markLost c) = c_slotIndex c"
  "c_phone (markLost c) = c_phone c"
  "c_state (markLost c) = c_state c"
  "customer_ok (markLost c) = customer_ok c"
  "c_isRemovable (markLost c) = c_isRemovable c"
  by (simp_all add: markLost_def customer_ok_def)

lemma markLost_counted:
  "c_countedAsLost (markLost c) = (c_countedAsLost c \<or> c_state c = STORMING_OFF)"
  by (auto simp add: markLost_def newlyLost_def)

lemma checkLost_fst: "fst (checkLost cs g) = map markLost cs"
  by (induction cs g rule: checkLost.induct) (simp_all add: markLost_def newlyLost_def Let_def)

lemma checkLost_same:
  "g_score (snd (checkLost cs g)) = g_score g"
  "g_maxCombo (snd (checkLost cs g)) = g_maxCombo g"
  "g_customerSlots (snd (checkLost cs g)) = g_customerSlots g"
  "g_pendingRealMessages (snd (checkLost cs g)) = g_pendingRealMessages g"
  "g_difficulty (snd (checkLost cs g)) = g_difficulty g"
  "g_customersServed (snd (checkLost cs g)) = g_customersServed g"
  "g_bottles (snd (checkLost cs g)) = g_bottles g"
  by (induction cs g rule: checkLost.induct) (simp_all add: Let_def gameOver_def)

lemma checkLost_lost:
  "g_customersLost (snd (checkLost cs g)) = g_customersLost g + length (filter newlyLost cs)"
  by (induction cs g rule: checkLost.induct) (simp_all add: Let_def gameOver_def newlyLost_def)

lemma checkLost_combo:
  "g_comboCount (snd (checkLost cs g)) =
    (if filter newlyLost cs = [] then g_comboCount g else 0)"
  by (induction cs g rule: checkLost.induct) (simp_all add: Let_def gameOver_def newlyLost_def)

lemma checkLost_state:
  "g_state (snd (checkLost cs g)) =
    (if filter newlyLost cs \<noteq> [] \<and> MAX_LOST \<le> g_customersLost g + length (filter newlyLost cs)
     then GAMEOVER else g_state g)"
proof (induction cs arbitrary: g)
  case Nil
  then show ?case by simp
next
  case (Cons c cs)
  show ?case
  proof (cases "newlyLost c")
    case False
    then have "checkLost (c # cs) g = (c # fst (checkLost cs g), snd (checkLost cs g))"
      by (auto simp add: newlyLost_def Let_def)
    with False Cons.IH [of g] show ?thesis by simp
  next
    case True
    define g2 where "g2 =
      (if g_customersLost (g\<lparr>g_customersLost := g_customersLost g + 1, g_comboCount := 0\<rparr>)
            \<ge> MAX_LOST
       then gameOver (g\<lparr>g_customersLost := g_customersLost g + 1, g_comboCount := 0\<rparr>)
       else g\<lparr>g_customersLost := g_customersLost g + 1, g_comboCount := 0\<rparr>)"
    from True have s: "snd (checkLost (c # cs) g) = snd (checkLost cs g2)"
      by (simp add: newlyLost_def Let_def g2_def)
    have l: "g_customersLost g2 = g_customersLost g + 1"
      by (simp add: gameOver_def g2_def)
    have t: "g_state g2 = (if MAX_LOST \<le> g_customersLost g + 1 then GAMEOVER else g_state g)"
      by (simp add: gameOver_def g2_def)
    have "g_state (snd (checkLost cs g2)) =
      (if filter newlyLost cs \<noteq> [] \<and> MAX_LOST \<le> g_customersLost g2 + length (filter newlyLost cs)
       then GAMEOVER else g_state g2)"
      by (rule Cons.IH)
    then show ?thesis
      unfolding s l t using True by auto
  qed
qed

lemma map_enumerate_field:
  "(\<And>i c. f (h i c) = f c) \<Longrightarrow> map f (map (\<lambda>(i, c). h i c) (enumerate n cs)) = map f cs"
  by (induction cs arbitrary: n) simp_all

lemma set_map_enumerate:
  assumes "x \<in> set (map (\<lambda>(i, c). h i c) (enumerate n cs))"
  shows "\<exists>i c. c \<in> set cs \<and> x = h i c"
proof -
  from assms obtain i c where ic: "(i, c) \<in> set (enumerate n cs)" and x: "x = h i c"
    by auto
  from ic have "c \<in> set cs"
    by (auto simp add: in_set_enumerate_eq)
  with x show ?thesis by blast
qed

section \<open>Game: what each block of an operation changes\<close>

lemma update_combo_same:
  "g_customers (update_combo d g) = g_customers g"
  "g_customerSlots (update_combo d g) = g_customerSlots g"
  "g_pendingRealMessages (update_combo d g) = g_pendingRealMessages g"
  "g_score (update_combo d g) = g_score g"
  "g_maxCombo (update_combo d g) = g_maxCombo g"
  "g_customersLost (update_combo d g) = g_customersLost g"
  "g_state (update_combo d g) = g_state g"
  "g_difficulty (update_combo d g) = g_difficulty g"
  "g_customersServed (update_combo d g) = g_customersServed g"
  by (simp_all add: update_combo_def Let_def)

lemma update_combo_combo:
  "g_comboCount (update_combo d g) =
    (if g_comboCount g > 0 \<and> g_comboTimer g - d \<le> 0 then 0 else g_comboCount g)"
  by (simp add: update_combo_def Let_def)

lemma update_poll_same:
  "g_customers (update_poll d g) = g_customers g"
  "g_customerSlots (update_poll d g) = g_customerSlots g"
  "g_pendingRealMessages (update_poll d g) = g_pendingRealMessages g"
  "g_score (update_poll d g) = g_score g"
  "g_maxCombo (update_poll d g) = g_maxCombo g"
  "g_comboCount (update_poll d g) = g_comboCount g"
  "g_customersLost (update_poll d g) = g_customersLost g"
  "g_state (update_poll d g) = g_state g"
  "g_difficulty (update_poll d g) = g_difficulty g"
  "g_customersServed (update_poll d g) = g_customersServed g"
  "g_customerIdCounter (update_poll d g) = g_customerIdCounter g"
  by (simp_all add: update_poll_def Let_def)

lemma spawnCustomer_same:
  "g_comboCount (spawnCustomer g rnd now) = g_comboCount g"
  "g_maxCombo (spawnCustomer g rnd now) = g_maxCombo g"
  "g_score (spawnCustomer g rnd now) = g_score g"
  "g_state (spawnCustomer g rnd now) = g_state g"
  "g_customersLost (spawnCustomer g rnd now) = g_customersLost g"
  "g_difficulty (spawnCustomer g rnd now) = g_difficulty g"
  "g_customersServed (spawnCustomer g rnd now) = g_customersServed g"
  by (simp_all add: spawnCustomer_def Let_def split: option.split)

text \<open>The spawn timer, advanced by the tick's delta, has reached the spawn interval.\<close>

definition spawn_due :: "real \<Rightarrow> game \<Rightarrow> bool" where
  "spawn_due deltaTime g =
    (g_lastSpawnTime g + deltaTime \<ge> max MIN_SPAWN_INTERVAL (BASE_SPAWN_INTERVAL / g_difficulty g))"

lemma update_spawn_alt:
  "update_spawn d rnd now g =
    (if spawn_due d g then spawnCustomer (g\<lparr>g_lastSpawnTime := 0\<rparr>) rnd now
     else g\<lparr>g_lastSpawnTime := g_lastSpawnTime g + d\<rparr>)"
  by (simp add: update_spawn_def spawn_due_def Let_def)

lemma update_spawn_same:
  "g_comboCount (update_spawn d rnd now g) = g_comboCount g"
  "g_maxCombo (update_spawn d rnd now g) = g_maxCombo g"
  "g_score (update_spawn d rnd now g) = g_score g"
  "g_state (update_spawn d rnd now g) = g_state g"
  "g_customersLost (update_spawn d rnd now g) = g_customersLost g"
  "g_difficulty (update_spawn d rnd now g) = g_difficulty g"
  "g_customersServed (update_spawn d rnd now g) = g_customersServed g"
  by (simp_all add: update_spawn_alt spawnCustomer_same)

lemma update_customers_same:
  "g_customerSlots (update_customers d shake g) = g_customerSlots g"
  "g_pendingRealMessages (update_customers d shake g) = g_pendingRealMessages g"
  "g_score (update_customers d shake g) = g_score g"
  "g_maxCombo (update_customers d shake g) = g_maxCombo g"
  "g_comboCount (update_customers d shake g) = g_comboCount g"
  "g_customersLost (update_customers d shake g) = g_customersLost g"
  "g_state (update_customers d shake g) = g_state g"
  "g_difficulty (update_customers d shake g) = g_difficulty g"
  "g_customersServed (update_customers d shake g) = g_customersServed g"
  by (simp_all add: update_customers_def)

lemma update_customers_customers:
  "g_customers (update_customers d shake g) =
    map (\<lambda>(i, customer). Customer_update customer d (g_difficulty g) (shake i))
      (enumerate 0 (g_customers g))"
  by (simp add: update_customers_def)

lemma update_lost_same:
  "g_customerSlots (update_lost g) = g_customerSlots g"
  "g_pendingRealMessages (update_lost g) = g_pendingRealMessages g"
  "g_score (update_lost g) = g_score g"
  "g_maxCombo (update_lost g) = g_maxCombo g"
  "g_difficulty (update_lost g) = g_difficulty g"
  "g_customersServed (update_lost g) = g_customersServed g"
  by (simp_all add: update_lost_def Let_def checkLost_same)

lemma update_lost_fields:
  "g_customers (update_lost g) = map markLost (g_customers g)"
  "g_customersLost (update_lost g) =
     g_customersLost g + length (filter newlyLost (g_customers g))"
  "g_comboCount (update_lost g) =
     (if filter newlyLost (g_customers g) = [] then g_comboCount g else 0)"
  "g_state (update_lost g) =
     (if filter newlyLost (g_customers g) \<noteq> [] \<and>
         MAX_LOST \<le> g_customersLost g + length (filter newlyLost (g_customers g))
      then GAMEOVER else g_state g)"
  by (simp_all add: update_lost_def Let_def checkLost_fst checkLost_lost checkLost_combo
      checkLost_state)

lemma update_remove_same:
  "g_pendingRealMessages (update_remove g) = g_pendingRealMessages g"
  "g_score (update_remove g) = g_score g"
  "g_maxCombo (update_remove g) = g_maxCombo g"
  "g_comboCount (update_remove g) = g_comboCount g"
  "g_customersLost (update_remove g) = g_customersLost g"
  "g_state (update_remove g) = g_state g"
  "g_difficulty (update_remove g) = g_difficulty g"
  "g_customersServed (update_remove g) = g_customersServed g"
  "g_customers (update_remove g) = filter (\<lambda>customer. \<not> c_isRemovable customer) (g_customers g)"
  by (simp_all add: update_remove_def)

lemma update_bottles_same:
  "g_customers (update_bottles d now g) = g_customers g"
  "g_customerSlots (update_bottles d now g) = g_customerSlots g"
  "g_pendingRealMessages (update_bottles d now g) = g_pendingRealMessages g"
  "g_score (update_bottles d now g) = g_score g"
  "g_maxCombo (update_bottles d now g) = g_maxCombo g"
  "g_comboCount (update_bottles d now g) = g_comboCount g"
  "g_customersLost (update_bottles d now g) = g_customersLost g"
  "g_state (update_bottles d now g) = g_state g"
  "g_difficulty (update_bottles d now g) = g_difficulty g"
  "g_customersServed (update_bottles d now g) = g_customersServed g"
  by (simp_all add: update_bottles_def)

lemma update_difficulty_same:
  "g_customers (update_difficulty g) = g_customers g"
  "g_customerSlots (update_difficulty g) = g_customerSlots g"
  "g_pendingRealMessages (update_difficulty g) = g_pendingRealMessages g"
  "g_score (update_difficulty g) = g_score g"
  "g_maxCombo (update_difficulty g) = g_maxCombo g"
  "g_comboCount (update_difficulty g) = g_comboCount g"
  "g_customersLost (update_difficulty g) = g_customersLost g"
  "g_state (update_difficulty g) = g_state g"
  by (simp_all add: update_difficulty_def)

lemma update_difficulty_range:
  "1 \<le> g_difficulty g \<and> g_difficulty g \<le> 3 \<Longrightarrow>
   1 \<le> g_difficulty (update_difficulty g) \<and> g_difficulty (update_difficulty g) \<le> 3"
  by (simp add: update_difficulty_def)

lemma poll_same:
  "g_customers (pollIncomingMessages g ok ms) = g_customers g"
  "g_customerSlots (pollIncomingMessages g ok ms) = g_customerSlots g"
  "g_score (pollIncomingMessages g ok ms) = g_score g"
  "g_maxCombo (pollIncomingMessages g ok ms) = g_maxCombo g"
  "g_comboCount (pollIncomingMessages g ok ms) = g_comboCount g"
  "g_customersLost (pollIncomingMessages g ok ms) = g_customersLost g"
  "g_state (pollIncomingMessages g ok ms) = g_state g"
  "g_difficulty (pollIncomingMessages g ok ms) = g_difficulty g"
proof -
  have "g_customers (foldl enqueue_message g ms) = g_customers g \<and>
        g_customerSlots (foldl enqueue_message g ms) = g_customerSlots g \<and>
        g_score (foldl enqueue_message g ms) = g_score g \<and>
        g_maxCombo (foldl enqueue_message g ms) = g_maxCombo g \<and>
        g_comboCount (foldl enqueue_message g ms) = g_comboCount g \<and>
        g_customersLost (foldl enqueue_message g ms) = g_customersLost g \<and>
        g_state (foldl enqueue_message g ms) = g_state g \<and>
        g_difficulty (foldl enqueue_message g ms) = g_difficulty g"
    by (induction ms arbitrary: g) (simp_all add: enqueue_message_def Let_def)
  then show
    "g_customers (pollIncomingMessages g ok ms) = g_customers g"
    "g_customerSlots (pollIncomingMessages g ok ms) = g_customerSlots g"
    "g_score (pollIncomingMessages g ok ms) = g_score g"
    "g_maxCombo (pollIncomingMessages g ok ms) = g_maxCombo g"
    "g_comboCount (pollIncomingMessages g ok ms) = g_comboCount g"
    "g_customersLost (pollIncomingMessages g ok ms) = g_customersLost g"
    "g_state (pollIncomingMessages g ok ms) = g_state g"
    "g_difficulty (pollIncomingMessages g ok ms) = g_difficulty g"
    by (simp_all add: pollIncomingMessages_def)
qed

lemma begin_Some:
  assumes "serveCustomer_begin g ci now = Some (g1, c, bi)"
  shows "g_selectedBottleIndex g = Some bi" and "ci < length (g_customers g)"
    and "bi < length (g_bottles g)" and "\<not> bt_locked (b_type (g_bottles g ! bi))"
    and "\<not> isOnCooldown (g_bottles g ! bi) now" and "fst (serve (g_customers g ! ci))"
    and "c = snd (serve (g_customers g ! ci))"
    and "g1 = g\<lparr>g_customers := (g_customers g)[ci := snd (serve (g_customers g ! ci))]\<rparr>"
  using assms by (auto simp add: serveCustomer_begin_def split: option.splits if_splits)

lemma finish_same:
  "g_customers (serveCustomer_finish g c bi now) = g_customers g"
  "g_customerSlots (serveCustomer_finish g c bi now) = g_customerSlots g"
  "g_pendingRealMessages (serveCustomer_finish g c bi now) = g_pendingRealMessages g"
  "g_customersLost (serveCustomer_finish g c bi now) = g_customersLost g"
  "g_state (serveCustomer_finish g c bi now) = g_state g"
  "g_difficulty (serveCustomer_finish g c bi now) = g_difficulty g"
  by (simp_all add: serveCustomer_finish_def Let_def)

lemma finish_fields:
  "g_score (serveCustomer_finish g c bi now) = g_score g + servePoints g c"
  "g_comboCount (serveCustomer_finish g c bi now) = g_comboCount g + 1"
  "g_maxCombo (serveCustomer_finish g c bi now) = max (g_maxCombo g) (g_comboCount g + 1)"
  "g_customersServed (serveCustomer_finish g c bi now) = g_customersServed g + 1"
  "g_comboTimer (serveCustomer_finish g c bi now) = COMBO_TIMEOUT"
  by (simp_all add: serveCustomer_finish_def Let_def)

lemma servePoints_ge:
  assumes "customer_ok c"
  shows "BASE_SCORE \<le> servePoints g c"
proof -
  from assms have "0 \<le> getPatiencePercent c * PATIENCE_BONUS_MULTIPLIER"
    by (simp add: customer_ok_def getPatiencePercent_def PATIENCE_BONUS_MULTIPLIER_def)
  then have "0 \<le> \<lfloor>getPatiencePercent c * PATIENCE_BONUS_MULTIPLIER\<rfloor>" by simp
  then show ?thesis
    by (simp add: servePoints_def Let_def COMBO_BONUS_def)
qed

lemma small_same:
  "g_customers (selectBottle g i) = g_customers g"
  "g_customerSlots (selectBottle g i) = g_customerSlots g"
  "g_pendingRealMessages (selectBottle g i) = g_pendingRealMessages g"
  "g_score (selectBottle g i) = g_score g"
  "g_maxCombo (selectBottle g i) = g_maxCombo g"
  "g_comboCount (selectBottle g i) = g_comboCount g"
  "g_difficulty (selectBottle g i) = g_difficulty g"
  "g_customers (pause g) = g_customers g"
  "g_customerSlots (pause g) = g_customerSlots g"
  "g_pendingRealMessages (pause g) = g_pendingRealMessages g"
  "g_score (pause g) = g_score g"
  "g_maxCombo (pause g) = g_maxCombo g"
  "g_comboCount (pause g) = g_comboCount g"
  "g_difficulty (pause g) = g_difficulty g"
  "g_customers (resume g) = g_customers g"
  "g_customerSlots (resume g) = g_customerSlots g"
  "g_pendingRealMessages (resume g) = g_pendingRealMessages g"
  "g_score (resume g) = g_score g"
  "g_maxCombo (resume g) = g_maxCombo g"
  "g_comboCount (resume g) = g_comboCount g"
  "g_difficulty (resume g) = g_difficulty g"
  "g_customers (setDemoMode g b) = g_customers g"
  "g_customerSlots (setDemoMode g b) = g_customerSlots g"
  "g_pendingRealMessages (setDemoMode g b) = g_pendingRealMessages g"
  "g_score (setDemoMode g b) = g_score g"
  "g_maxCombo (setDemoMode g b) = g_maxCombo g"
  "g_comboCount (setDemoMode g b) = g_comboCount g"
  "g_difficulty (setDemoMode g b) = g_difficulty g"
  by (simp_all add: selectBottle_def pause_def resume_def setDemoMode_def)

lemma startGame_fields:
  "g_customers (startGame g) = []"
  "g_customerSlots (startGame g) = replicate MAX_CUSTOMERS None"
  "g_pendingRealMessages (startGame g) = []"
  "g_score (startGame g) = 0"
  "g_maxCombo (startGame g) = 0"
  "g_comboCount (startGame g) = 0"
  "g_customersLost (startGame g) = 0"
  "g_difficulty (startGame g) = 1"
  "g_state (startGame g) = PLAYING"
  by (simp_all add: startGame_def)

lemma Game_new_fields:
  "g_customers (Game_new n) = []"
  "g_customerSlots (Game_new n) = replicate MAX_CUSTOMERS None"
  "g_pendingRealMessages (Game_new n) = []"
  "g_score (Game_new n) = 0"
  "g_maxCombo (Game_new n) = 0"
  "g_comboCount (Game_new n) = 0"
  "g_customersLost (Game_new n) = 0"
  "g_difficulty (Game_new n) = 1"
  "g_state (Game_new n) = MENU"
  by (simp_all add: Game_new_def)

section \<open>Game: what every reachable game satisfies\<close>

text \<open>
  A key that is not of the form \<^verbatim>\<open>demo_...\<close>; the number of active customers and queued
  records that carry a key; and what holds of every game reachable from a new one: at
  most one carrier for each such key, customers that satisfy \<open>customer_ok\<close> and are
  counted as lost exactly when they are storming off, a combo count not above
  \<open>maxCombo\<close>, and a difficulty between 1 and 3.
\<close>

definition real_key :: "string \<Rightarrow> bool" where
  "real_key p = (take 5 p \<noteq> ''demo_'')"

definition key_count :: "game \<Rightarrow> string \<Rightarrow> nat" where
  "key_count g p =
    length (filter (\<lambda>c. c_phone c = p) (g_customers g)) +
    length (filter (\<lambda>m. p_phone m = p) (g_pendingRealMessages g))"

definition dedup_inv :: "game \<Rightarrow> bool" where
  "dedup_inv g = (\<forall>p. real_key p \<longrightarrow> key_count g p \<le> 1)"

definition roster_ok :: "game \<Rightarrow> bool" where
  "roster_ok g =
    list_all (\<lambda>c. customer_ok c \<and> (c_countedAsLost c = (c_state c = STORMING_OFF)))
      (g_customers g)"

definition combo_inv :: "game \<Rightarrow> bool" where
  "combo_inv g = (g_comboCount g \<le> g_maxCombo g)"

definition difficulty_inv :: "game \<Rightarrow> bool" where
  "difficulty_inv g = (1 \<le> g_difficulty g \<and> g_difficulty g \<le> 3)"

definition game_inv :: "game \<Rightarrow> bool" where
  "game_inv g = (slots_inv g \<and> dedup_inv g \<and> roster_ok g \<and> combo_inv g \<and> difficulty_inv g)"

subsection \<open>Slots\<close>

lemma update_customers_map_field:
  assumes "\<And>c d D r. f (Customer_update c d D r) = f c"
  shows "map f (g_customers (update_customers d shake g)) = map f (g_customers g)"
  unfolding update_customers_customers
  by (rule map_enumerate_field) (rule assms)

lemma slots_inv_update:
  assumes "slots_inv g"
  shows "slots_inv (Game_update g d now rnd shake)"
proof (cases "g_state g = PLAYING")
  case False
  with assms show ?thesis by (simp add: Game_update_def)
next
  case True
  have 1: "slots_inv (update_poll d (update_combo d g))"
    using assms by (rule slots_inv_same) (simp_all add: update_poll_same update_combo_same)
  have 2: "slots_inv (update_spawn d rnd now (update_poll d (update_combo d g)))"
    (is "slots_inv (update_spawn d rnd now ?g)")
  proof (cases "spawn_due d ?g")
    case True
    have "slots_inv (?g\<lparr>g_lastSpawnTime := 0\<rparr>)"
      using 1 by (rule slots_inv_same) simp_all
    then show ?thesis using True by (simp add: update_spawn_alt slots_inv_spawn)
  next
    case False
    have "slots_inv (?g\<lparr>g_lastSpawnTime := g_lastSpawnTime ?g + d\<rparr>)"
      using 1 by (rule slots_inv_same) simp_all
    then show ?thesis using False by (simp add: update_spawn_alt)
  qed
  have 3: "slots_inv (update_customers d shake (update_spawn d rnd now ?g))"
    using 2
    by (rule slots_inv_same)
      (simp_all add: update_customers_same update_customers_map_field Customer_update_keeps)
  have 4: "slots_inv (update_lost (update_customers d shake (update_spawn d rnd now ?g)))"
    using 3 by (rule slots_inv_same) (simp_all add: update_lost_same update_lost_fields)
  have 5: "slots_inv (update_remove (update_lost (update_customers d shake
      (update_spawn d rnd now ?g))))"
    using 4 by (rule slots_inv_remove)
  have "slots_inv (update_difficulty (update_bottles d now (update_remove (update_lost
      (update_customers d shake (update_spawn d rnd now ?g))))))"
    using 5 by (rule slots_inv_same) (simp_all add: update_difficulty_same update_bottles_same)
  with True show ?thesis by (simp add: Game_update_def)
qed

lemma slots_inv_fresh:
  "g_customers g = [] \<Longrightarrow> g_customerSlots g = replicate MAX_CUSTOMERS None \<Longrightarrow> slots_inv g"
  by (simp add: slots_inv_def)

lemma map_field_update:
  "i < length xs \<Longrightarrow> f y = f (xs ! i) \<Longrightarrow> map f (xs[i := y]) = map f xs"
  by (simp add: map_update list_update_same_conv)

lemma begin_fields:
  assumes "serveCustomer_begin g ci now = Some (g1, c, bi)"
  shows "g_customers g1 = (g_customers g)[ci := snd (serve (g_customers g ! ci))]"
    and "g_customerSlots g1 = g_customerSlots g"
    and "g_pendingRealMessages g1 = g_pendingRealMessages g"
    and "g_score g1 = g_score g" and "g_maxCombo g1 = g_maxCombo g"
    and "g_comboCount g1 = g_comboCount g" and "g_difficulty g1 = g_difficulty g"
    and "g_customersLost g1 = g_customersLost g" and "g_state g1 = g_state g"
  using begin_Some(8) [OF assms] by simp_all

lemma slots_inv_begin:
  assumes "slots_inv g" and "serveCustomer_begin g ci now = Some (g1, c, bi)"
  shows "slots_inv g1"
  using assms(1)
  by (rule slots_inv_same)
    (simp_all add: begin_fields [OF assms(2)] map_field_update begin_Some(2) [OF assms(2)]
      serve_keeps)

lemma slots_inv_exec:
  assumes "slots_inv g"
  shows "slots_inv (exec g operation)"
proof (cases operation)
  case Start
  then show ?thesis by (simp add: slots_inv_fresh startGame_fields)
next
  case (Tick d now rnd shake)
  with assms show ?thesis by (simp add: slots_inv_update)
next
  case (Poll ok ms)
  with slots_inv_same [OF assms, of "pollIncomingMessages g ok ms"] show ?thesis
    by (simp add: poll_same)
next
  case (Serve ci now)
  show ?thesis
  proof (cases "serveCustomer_begin g ci now")
    case None
    with Serve assms show ?thesis by (simp add: serveCustomer_def)
  next
    case (Some r)
    obtain g1 c bi where r: "r = (g1, c, bi)" by (cases r)
    from slots_inv_begin [OF assms Some [unfolded r]]
    have "slots_inv (serveCustomer_finish g1 c bi now)"
      by (rule slots_inv_same) (simp_all add: finish_same)
    with Serve Some r show ?thesis by (simp add: serveCustomer_def)
  qed
next
  case (ServeBegin ci now)
  show ?thesis
  proof (cases "serveCustomer_begin g ci now")
    case None
    with ServeBegin assms show ?thesis by simp
  next
    case (Some r)
    obtain g1 c bi where r: "r = (g1, c, bi)" by (cases r)
    from slots_inv_begin [OF assms Some [unfolded r]] ServeBegin Some r show ?thesis by simp
  qed
next
  case (ServeFinish c bi now)
  with slots_inv_same [OF assms, of "serveCustomer_finish g c bi now"] show ?thesis
    by (simp add: finish_same)
next
  case (Select i)
  with slots_inv_same [OF assms, of "selectBottle g i"] show ?thesis
    by (simp add: small_same)
next
  case Pause
  with slots_inv_same [OF assms, of "pause g"] show ?thesis by (simp add: small_same)
next
  case Resume
  with slots_inv_same [OF assms, of "resume g"] show ?thesis by (simp add: small_same)
next
  case (SetDemo b)
  with slots_inv_same [OF assms, of "setDemoMode g b"] show ?thesis by (simp add: small_same)
qed

subsection \<open>Correlation keys\<close>

lemma length_filter_map_eq:
  "length (filter (\<lambda>x. f x = p) xs) = length (filter (\<lambda>x. x = p) (map f xs))"
  by (induction xs) simp_all

lemma key_count_alt:
  "key_count g p =
    length (filter (\<lambda>x. x = p) (map c_phone (g_customers g))) +
    length (filter (\<lambda>x. x = p) (map p_phone (g_pendingRealMessages g)))"
  unfolding key_count_def
  by (simp only: length_filter_map_eq [of c_phone] length_filter_map_eq [of p_phone])

lemma key_count_same:
  "map c_phone (g_customers g') = map c_phone (g_customers g) \<Longrightarrow>
   g_pendingRealMessages g' = g_pendingRealMessages g \<Longrightarrow> key_count g' p = key_count g p"
  by (simp only: key_count_alt)

lemma dedup_mono:
  assumes "dedup_inv g" and "\<And>p. real_key p \<Longrightarrow> key_count g' p \<le> key_count g p"
  shows "dedup_inv g'"
  unfolding dedup_inv_def
proof (intro allI impI)
  fix p
  assume r: "real_key p"
  with assms(1) have "key_count g p \<le> 1" by (simp add: dedup_inv_def)
  with assms(2) [OF r] show "key_count g' p \<le> 1" by simp
qed

lemma dedup_same:
  assumes "dedup_inv g" and "map c_phone (g_customers g') = map c_phone (g_customers g)"
    and "g_pendingRealMessages g' = g_pendingRealMessages g"
  shows "dedup_inv g'"
  using assms(1)
proof (rule dedup_mono)
  fix p
  from key_count_same [OF assms(2) assms(3), of p] show "key_count g' p \<le> key_count g p"
    by simp
qed

lemma placeholder_key: "\<not> real_key (''demo_'' @ s)"
  by (simp add: real_key_def)

lemma length_filter_filter_le:
  "length (filter P (filter Q xs)) \<le> length (filter P xs)"
  by (induction xs) (simp_all add: le_SucI)

lemma key_count_spawn:
  assumes "real_key p"
  shows "key_count (spawnCustomer g rnd now) p \<le> key_count g p"
proof (cases "findIndex (\<lambda>slot. slot = None) (g_customerSlots g)")
  case None
  then show ?thesis by (simp add: spawnCustomer_full)
next
  case (Some i)
  from assms placeholder_key [of "show_nat (g_customerIdCounter g + 1)"]
  have np: "''demo_'' @ show_nat (g_customerIdCounter g + 1) \<noteq> p" by blast
  show ?thesis
  proof (cases "g_pendingRealMessages g")
    case Nil
    with np have "c_phone (spawned g rnd now i) \<noteq> p"
      by (simp add: spawned_fields)
    with Nil show ?thesis
      by (simp add: key_count_def spawnCustomer_free [OF Some])
  next
    case (Cons m rest)
    with np have "c_phone (spawned g rnd now i) = p \<Longrightarrow> p_phone m = p"
      by (cases "p_phone m = []") (simp_all add: spawned_fields)
    with Cons show ?thesis
      by (cases "c_phone (spawned g rnd now i) = p")
        (simp_all add: key_count_def spawnCustomer_free [OF Some])
  qed
qed

lemma key_count_remove: "key_count (update_remove g) p \<le> key_count g p"
  by (simp add: key_count_def update_remove_same length_filter_filter_le del: filter_filter)

lemma dedup_update:
  assumes "dedup_inv g"
  shows "dedup_inv (Game_update g d now rnd shake)"
proof (cases "g_state g = PLAYING")
  case False
  with assms show ?thesis by (simp add: Game_update_def)
next
  case True
  have 1: "dedup_inv (update_poll d (update_combo d g))" (is "dedup_inv ?g")
    using assms by (rule dedup_same) (simp_all add: update_poll_same update_combo_same)
  have 2: "dedup_inv (update_spawn d rnd now ?g)"
  proof (cases "spawn_due d ?g")
    case True
    have "dedup_inv (?g\<lparr>g_lastSpawnTime := 0\<rparr>)"
      using 1 by (rule dedup_same) simp_all
    then have "dedup_inv (spawnCustomer (?g\<lparr>g_lastSpawnTime := 0\<rparr>) rnd now)"
      by (rule dedup_mono) (rule key_count_spawn)
    with True show ?thesis by (simp add: update_spawn_alt)
  next
    case False
    have "dedup_inv (?g\<lparr>g_lastSpawnTime := g_lastSpawnTime ?g + d\<rparr>)"
      using 1 by (rule dedup_same) simp_all
    then show ?thesis using False by (simp add: update_spawn_alt)
  qed
  have 3: "dedup_inv (update_customers d shake (update_spawn d rnd now ?g))"
    using 2
    by (rule dedup_same)
      (simp_all add: update_customers_same update_customers_map_field Customer_update_keeps)
  have 4: "dedup_inv (update_lost (update_customers d shake (update_spawn d rnd now ?g)))"
    using 3 by (rule dedup_same) (simp_all add: update_lost_same update_lost_fields)
  have 5: "dedup_inv (update_remove (update_lost (update_customers d shake
      (update_spawn d rnd now ?g))))"
    using 4 by (rule dedup_mono) (rule key_count_remove)
  have "dedup_inv (update_difficulty (update_bottles d now (update_remove (update_lost
      (update_customers d shake (update_spawn d rnd now ?g))))))"
    using 5 by (rule dedup_same) (simp_all add: update_difficulty_same update_bottles_same)
  with True show ?thesis by (simp add: Game_update_def)
qed

lemma list_ex_filter: "\<not> list_ex P xs \<Longrightarrow> filter P xs = []"
  by (induction xs) simp_all

lemma dedup_enqueue:
  assumes "dedup_inv g"
  shows "dedup_inv (enqueue_message g msg)"
proof (cases "list_ex (\<lambda>c. c_phone c = in_phone msg) (g_customers g) \<or>
    list_ex (\<lambda>m. p_phone m = in_phone msg) (g_pendingRealMessages g)")
  case True
  with assms show ?thesis by (simp add: enqueue_message_def)
next
  case False
  then have zero: "key_count g (in_phone msg) = 0"
    by (simp add: key_count_def list_ex_filter)
  have cs: "g_customers (enqueue_message g msg) = g_customers g"
    by (simp add: enqueue_message_def Let_def)
  have ps: "map p_phone (g_pendingRealMessages (enqueue_message g msg)) =
      map p_phone (g_pendingRealMessages g) @ [in_phone msg]"
    using False by (simp add: enqueue_message_def Let_def)
  have "key_count (enqueue_message g msg) p =
      key_count g p + (if in_phone msg = p then 1 else 0)" for p
    unfolding key_count_alt cs ps by simp
  with zero assms show ?thesis
    unfolding dedup_inv_def by auto
qed

lemma dedup_poll:
  assumes "dedup_inv g"
  shows "dedup_inv (pollIncomingMessages g ok ms)"
proof -
  have "dedup_inv g \<Longrightarrow> dedup_inv (foldl enqueue_message g ms)"
    by (induction ms arbitrary: g) (simp_all add: dedup_enqueue)
  with assms show ?thesis by (simp add: pollIncomingMessages_def)
qed

lemma dedup_fresh:
  "g_customers g = [] \<Longrightarrow> g_pendingRealMessages g = [] \<Longrightarrow> dedup_inv g"
  by (simp add: dedup_inv_def key_count_def)

lemma dedup_begin:
  assumes "dedup_inv g" and "serveCustomer_begin g ci now = Some (g1, c, bi)"
  shows "dedup_inv g1"
  using assms(1)
  by (rule dedup_same)
    (simp_all add: begin_fields [OF assms(2)] map_field_update begin_Some(2) [OF assms(2)]
      serve_keeps)

lemma dedup_exec:
  assumes "dedup_inv g"
  shows "dedup_inv (exec g operation)"
proof (cases operation)
  case Start
  then show ?thesis by (simp add: dedup_fresh startGame_fields)
next
  case (Tick d now rnd shake)
  with assms show ?thesis by (simp add: dedup_update)
next
  case (Poll ok ms)
  with assms show ?thesis by (simp add: dedup_poll)
next
  case (Serve ci now)
  show ?thesis
  proof (cases "serveCustomer_begin g ci now")
    case None
    with Serve assms show ?thesis by (simp add: serveCustomer_def)
  next
    case (Some r)
    obtain g1 c bi where r: "r = (g1, c, bi)" by (cases r)
    from dedup_begin [OF assms Some [unfolded r]]
    have "dedup_inv (serveCustomer_finish g1 c bi now)"
      by (rule dedup_same) (simp_all add: finish_same)
    with Serve Some r show ?thesis by (simp add: serveCustomer_def)
  qed
next
  case (ServeBegin ci now)
  show ?thesis
  proof (cases "serveCustomer_begin g ci now")
    case None
    with ServeBegin assms show ?thesis by simp
  next
    case (Some r)
    obtain g1 c bi where r: "r = (g1, c, bi)" by (cases r)
    from dedup_begin [OF assms Some [unfolded r]] ServeBegin Some r show ?thesis by simp
  qed
next
  case (ServeFinish c bi now)
  with dedup_same [OF assms, of "serveCustomer_finish g c bi now"] show ?thesis
    by (simp add: finish_same)
next
  case (Select i)
  with dedup_same [OF assms, of "selectBottle g i"] show ?thesis
    by (simp add: small_same)
next
  case Pause
  with dedup_same [OF assms, of "pause g"] show ?thesis by (simp add: small_same)
next
  case Resume
  with dedup_same [OF assms, of "resume g"] show ?thesis by (simp add: small_same)
next
  case (SetDemo b)
  with dedup_same [OF assms, of "setDemoMode g b"] show ?thesis by (simp add: small_same)
qed

subsection \<open>The customers of the roster\<close>

lemma random_index_less: "random_ok r \<Longrightarrow> 0 < n \<Longrightarrow> random_index r n < n"
proof -
  assume r: "random_ok r" and n: "0 < n"
  then have lt: "r * real n < real n" and ge: "0 \<le> r * real n"
    by (simp_all add: random_ok_def)
  from lt have "\<lfloor>r * real n\<rfloor> < int n"
    by (simp add: floor_less_iff)
  moreover from ge have "0 \<le> \<lfloor>r * real n\<rfloor>" by simp
  ultimately show ?thesis by (simp add: random_index_def nat_less_iff)
qed

lemma CUSTOMER_TYPES_patience: "i < length CUSTOMER_TYPES \<Longrightarrow> 0 < ct_patience (CUSTOMER_TYPES ! i)"
proof -
  assume "i < length CUSTOMER_TYPES"
  then have "CUSTOMER_TYPES ! i \<in> set CUSTOMER_TYPES" by (rule nth_mem)
  then show ?thesis by (auto simp add: CUSTOMER_TYPES_def)
qed

lemma Customer_new_ok:
  assumes "case o_typeIndex options of Some i \<Rightarrow> i < length CUSTOMER_TYPES
           | None \<Rightarrow> random_ok (r_type rnd)"
  shows "customer_ok (Customer_new n options rnd now)"
proof -
  let ?i = "case o_typeIndex options of Some i \<Rightarrow> i
            | None \<Rightarrow> random_index (r_type rnd) (length CUSTOMER_TYPES)"
  have "?i < length CUSTOMER_TYPES"
    using assms random_index_less [of "r_type rnd" "length CUSTOMER_TYPES"]
    by (cases "o_typeIndex options") (simp_all add: CUSTOMER_TYPES_def)
  then have "0 < ct_patience (CUSTOMER_TYPES ! ?i)" by (rule CUSTOMER_TYPES_patience)
  then show ?thesis
    by (simp add: customer_ok_def Customer_new_def Let_def)
qed

lemma spawned_ok: "random_ok (r_type rnd) \<Longrightarrow> customer_ok (spawned g rnd now i)"
proof -
  assume r: "random_ok (r_type rnd)"
  have "customer_ok (Customer_new (g_customerIdCounter g)
      (case g_pendingRealMessages g of
         msgData # rest \<Rightarrow>
           \<lparr>o_typeIndex = None, o_name = p_name msgData, o_message = p_message msgData,
            o_phone = p_phone msgData, o_isReal = True\<rparr>
       | [] \<Rightarrow> no_options) rnd now)"
    by (rule Customer_new_ok) (simp add: r no_options_def split: list.split)
  then show ?thesis
    by (simp add: spawned_def assignSlot_def customer_ok_def)
qed

text \<open>What \<open>roster_ok\<close> asks of one customer.\<close>

definition settled :: "customer \<Rightarrow> bool" where
  "settled c = (customer_ok c \<and> (c_countedAsLost c = (c_state c = STORMING_OFF)))"

lemma roster_ok_alt: "roster_ok g = list_all settled (g_customers g)"
  by (simp add: roster_ok_def settled_def [abs_def])

lemma spawned_settled: "random_ok (r_type rnd) \<Longrightarrow> settled (spawned g rnd now i)"
proof -
  assume "random_ok (r_type rnd)"
  then have "customer_ok (spawned g rnd now i)" by (rule spawned_ok)
  moreover have "\<not> c_countedAsLost (spawned g rnd now i)"
    by (simp add: spawned_def assignSlot_def Customer_new_def Let_def)
  ultimately show ?thesis by (simp add: settled_def spawned_fields)
qed

lemma update_stays_gone:
  "c_state c = STORMING_OFF \<Longrightarrow> c_state (Customer_update c d D r) = STORMING_OFF"
  by (simp add: Customer_update_def customer_dispatch_def updateLeaving_fields)

lemma settled_update_mark:
  assumes "settled c"
  shows "settled (markLost (Customer_update c d D r))"
proof -
  let ?c = "Customer_update c d D r"
  from assms have ok: "customer_ok ?c" by (simp add: settled_def update_ok)
  have "c_countedAsLost ?c \<Longrightarrow> c_state ?c = STORMING_OFF"
    using assms by (simp add: settled_def Customer_update_keeps update_stays_gone)
  then have "c_countedAsLost (markLost ?c) = (c_state (markLost ?c) = STORMING_OFF)"
    by (auto simp add: markLost_counted)
  with ok show ?thesis by (simp add: settled_def)
qed

lemma settled_customers_step:
  "list_all settled cs \<Longrightarrow>
   list_all settled
     (map markLost (map (\<lambda>(i, customer). Customer_update customer d D (shake i))
        (enumerate n cs)))"
  by (induction cs arbitrary: n) (simp_all add: settled_update_mark)

lemma roster_spawn:
  assumes "roster_ok g" and "random_ok (r_type rnd)"
  shows "roster_ok (spawnCustomer g rnd now)"
proof (cases "findIndex (\<lambda>slot. slot = None) (g_customerSlots g)")
  case None
  with assms show ?thesis by (simp add: spawnCustomer_full)
next
  case (Some i)
  with assms show ?thesis
    by (simp add: roster_ok_alt spawnCustomer_free [OF Some] spawned_settled)
qed

lemma roster_same: "roster_ok g \<Longrightarrow> g_customers g' = g_customers g \<Longrightarrow> roster_ok g'"
  by (simp add: roster_ok_def)

lemma roster_update:
  assumes "roster_ok g" and "random_ok (r_type rnd)"
  shows "roster_ok (Game_update g d now rnd shake)"
proof (cases "g_state g = PLAYING")
  case False
  with assms show ?thesis by (simp add: Game_update_def)
next
  case True
  have 1: "roster_ok (update_poll d (update_combo d g))" (is "roster_ok ?g")
    using assms(1) by (rule roster_same) (simp add: update_poll_same update_combo_same)
  have 2: "roster_ok (update_spawn d rnd now ?g)" (is "roster_ok ?g2")
  proof (cases "spawn_due d ?g")
    case True
    have "roster_ok (?g\<lparr>g_lastSpawnTime := 0\<rparr>)"
      using 1 by (rule roster_same) simp
    then have "roster_ok (spawnCustomer (?g\<lparr>g_lastSpawnTime := 0\<rparr>) rnd now)"
      using assms(2) by (rule roster_spawn)
    with True show ?thesis by (simp add: update_spawn_alt)
  next
    case False
    have "roster_ok (?g\<lparr>g_lastSpawnTime := g_lastSpawnTime ?g + d\<rparr>)"
      using 1 by (rule roster_same) simp
    then show ?thesis using False by (simp add: update_spawn_alt)
  qed
  have "list_all settled (map markLost (g_customers (update_customers d shake ?g2)))"
    unfolding update_customers_customers
    using 2 [unfolded roster_ok_alt] by (rule settled_customers_step)
  then have 4: "roster_ok (update_lost (update_customers d shake ?g2))" (is "roster_ok ?g4")
    by (simp add: roster_ok_alt update_lost_fields)
  have "list_all settled (filter (\<lambda>customer. \<not> c_isRemovable customer) (g_customers ?g4))"
    using 4 by (simp add: roster_ok_alt list_all_iff)
  then have 5: "roster_ok (update_remove ?g4)"
    by (simp add: roster_ok_alt update_remove_same)
  have "roster_ok (update_difficulty (update_bottles d now (update_remove ?g4)))"
    using 5 by (rule roster_same) (simp add: update_difficulty_same update_bottles_same)
  with True show ?thesis by (simp add: Game_update_def)
qed

lemma serve_settled: "settled c \<Longrightarrow> settled (snd (serve c))"
  by (auto simp add: settled_def customer_ok_def serve_def)

lemma list_all_update: "list_all P xs \<Longrightarrow> P y \<Longrightarrow> list_all P (xs[i := y])"
  by (induction xs arbitrary: i) (auto split: nat.split)

lemma roster_begin:
  assumes "roster_ok g" and "serveCustomer_begin g ci now = Some (g1, c, bi)"
  shows "roster_ok g1" and "customer_ok c"
proof -
  from begin_Some(2) [OF assms(2)] assms(1)
  have s: "settled (g_customers g ! ci)"
    by (simp add: roster_ok_alt list_all_length)
  then have s': "settled (snd (serve (g_customers g ! ci)))" by (rule serve_settled)
  with assms(1) show "roster_ok g1"
    by (simp add: roster_ok_alt begin_fields [OF assms(2)] list_all_update)
  from s' show "customer_ok c"
    by (simp add: begin_Some(7) [OF assms(2)] settled_def)
qed

lemma roster_fresh: "g_customers g = [] \<Longrightarrow> roster_ok g"
  by (simp add: roster_ok_def)

lemma roster_exec:
  assumes "roster_ok g" and "op_ok operation"
  shows "roster_ok (exec g operation)"
proof (cases operation)
  case Start
  then show ?thesis by (simp add: roster_fresh startGame_fields)
next
  case (Tick d now rnd shake)
  with assms show ?thesis by (simp add: roster_update)
next
  case (Poll ok ms)
  with roster_same [OF assms(1), of "pollIncomingMessages g ok ms"] show ?thesis
    by (simp add: poll_same)
next
  case (Serve ci now)
  show ?thesis
  proof (cases "serveCustomer_begin g ci now")
    case None
    with Serve assms show ?thesis by (simp add: serveCustomer_def)
  next
    case (Some r)
    obtain g1 c bi where r: "r = (g1, c, bi)" by (cases r)
    from roster_begin(1) [OF assms(1) Some [unfolded r]]
    have "roster_ok (serveCustomer_finish g1 c bi now)"
      by (rule roster_same) (simp add: finish_same)
    with Serve Some r show ?thesis by (simp add: serveCustomer_def)
  qed
next
  case (ServeBegin ci now)
  show ?thesis
  proof (cases "serveCustomer_begin g ci now")
    case None
    with ServeBegin assms show ?thesis by simp
  next
    case (Some r)
    obtain g1 c bi where r: "r = (g1, c, bi)" by (cases r)
    from roster_begin(1) [OF assms(1) Some [unfolded r]] ServeBegin Some r show ?thesis by simp
  qed
next
  case (ServeFinish c bi now)
  with roster_same [OF assms(1), of "serveCustomer_finish g c bi now"] show ?thesis
    by (simp add: finish_same)
next
  case (Select i)
  with roster_same [OF assms(1), of "selectBottle g i"] show ?thesis
    by (simp add: small_same)
next
  case Pause
  with roster_same [OF assms(1), of "pause g"] show ?thesis by (simp add: small_same)
next
  case Resume
  with roster_same [OF assms(1), of "resume g"] show ?thesis by (simp add: small_same)
next
  case (SetDemo b)
  with roster_same [OF assms(1), of "setDemoMode g b"] show ?thesis by (simp add: small_same)
qed

subsection \<open>Score, combo and difficulty\<close>

lemma update_counters:
  assumes "g_state g = PLAYING"
  shows "g_score (Game_update g d now rnd shake) = g_score g"
    and "g_maxCombo (Game_update g d now rnd shake) = g_maxCombo g"
    and "g_comboCount (Game_update g d now rnd shake) \<le> g_comboCount g"
  using assms
  by (simp_all add: Game_update_def update_difficulty_same update_bottles_same
      update_remove_same update_lost_same update_lost_fields update_customers_same
      update_spawn_same update_poll_same update_combo_same update_combo_combo)

lemma update_difficulty_inv:
  assumes "difficulty_inv g"
  shows "difficulty_inv (Game_update g d now rnd shake)"
proof (cases "g_state g = PLAYING")
  case False
  with assms show ?thesis by (simp add: Game_update_def)
next
  case True
  let ?g = "update_bottles d now (update_remove (update_lost (update_customers d shake
      (update_spawn d rnd now (update_poll d (update_combo d g))))))"
  have "g_difficulty ?g = g_difficulty g"
    by (simp add: update_bottles_same update_remove_same update_lost_same
        update_customers_same update_spawn_same update_poll_same update_combo_same)
  with assms have "1 \<le> g_difficulty ?g \<and> g_difficulty ?g \<le> 3"
    by (simp add: difficulty_inv_def)
  then have "difficulty_inv (update_difficulty ?g)"
    unfolding difficulty_inv_def by (rule update_difficulty_range)
  with True show ?thesis by (simp add: Game_update_def)
qed

lemma begin_cases:
  obtains (none) "serveCustomer_begin g ci now = None"
  | (some) g1 c bi where "serveCustomer_begin g ci now = Some (g1, c, bi)"
  by (cases "serveCustomer_begin g ci now") auto

lemma exec_counters:
  assumes "roster_ok g" and "op_ok operation" and "operation \<noteq> Start"
  shows "g_score g \<le> g_score (exec g operation)"
    and "g_maxCombo g \<le> g_maxCombo (exec g operation)"
proof -
  have "g_score g \<le> g_score (exec g operation) \<and> g_maxCombo g \<le> g_maxCombo (exec g operation)"
  proof (cases operation)
    case Start
    with assms(3) show ?thesis by simp
  next
    case (Tick d now rnd shake)
    then show ?thesis
      by (cases "g_state g = PLAYING") (simp_all add: update_counters, simp add: Game_update_def)
  next
    case (Poll ok ms)
    then show ?thesis by (simp add: poll_same)
  next
    case (Serve ci now)
    show ?thesis
    proof (cases rule: begin_cases [of g ci now])
      case none
      with Serve show ?thesis by (simp add: serveCustomer_def)
    next
      case (some g1 c bi)
      from roster_begin(2) [OF assms(1) some] have "BASE_SCORE \<le> servePoints g1 c"
        by (rule servePoints_ge)
      with Serve some show ?thesis
        by (simp add: serveCustomer_def finish_fields begin_fields [OF some] BASE_SCORE_def)
    qed
  next
    case (ServeBegin ci now)
    show ?thesis
    proof (cases rule: begin_cases [of g ci now])
      case none
      with ServeBegin show ?thesis by simp
    next
      case (some g1 c bi)
      with ServeBegin show ?thesis by (simp add: begin_fields [OF some])
    qed
  next
    case (ServeFinish c bi now)
    with assms(2) have "BASE_SCORE \<le> servePoints g c"
      by (simp add: servePoints_ge)
    with ServeFinish show ?thesis by (simp add: finish_fields BASE_SCORE_def)
  next
    case (Select i)
    then show ?thesis by (simp add: small_same)
  next
    case Pause
    then show ?thesis by (simp add: small_same)
  next
    case Resume
    then show ?thesis by (simp add: small_same)
  next
    case (SetDemo b)
    then show ?thesis by (simp add: small_same)
  qed
  then show "g_score g \<le> g_score (exec g operation)"
    and "g_maxCombo g \<le> g_maxCombo (exec g operation)" by simp_all
qed

lemma combo_exec:
  assumes "combo_inv g"
  shows "combo_inv (exec g operation)"
proof (cases operation)
  case Start
  then show ?thesis by (simp add: combo_inv_def startGame_fields)
next
  case (Tick d now rnd shake)
  show ?thesis
  proof (cases "g_state g = PLAYING")
    case True
    with assms update_counters(2,3) [OF True, of d now rnd shake] Tick show ?thesis
      by (simp add: combo_inv_def)
  next
    case False
    with assms Tick show ?thesis by (simp add: Game_update_def)
  qed
next
  case (Poll ok ms)
  with assms show ?thesis by (simp add: combo_inv_def poll_same)
next
  case (Serve ci now)
  show ?thesis
  proof (cases rule: begin_cases [of g ci now])
    case none
    with Serve assms show ?thesis by (simp add: serveCustomer_def)
  next
    case (some g1 c bi)
    with Serve show ?thesis
      by (simp add: combo_inv_def serveCustomer_def finish_fields)
  qed
next
  case (ServeBegin ci now)
  show ?thesis
  proof (cases rule: begin_cases [of g ci now])
    case none
    with ServeBegin assms show ?thesis by simp
  next
    case (some g1 c bi)
    with ServeBegin assms show ?thesis by (simp add: combo_inv_def begin_fields [OF some])
  qed
next
  case (ServeFinish c bi now)
  then show ?thesis by (simp add: combo_inv_def finish_fields)
next
  case (Select i)
  with assms show ?thesis by (simp add: combo_inv_def small_same)
next
  case Pause
  with assms show ?thesis by (simp add: combo_inv_def small_same)
next
  case Resume
  with assms show ?thesis by (simp add: combo_inv_def small_same)
next
  case (SetDemo b)
  with assms show ?thesis by (simp add: combo_inv_def small_same)
qed

lemma difficulty_exec:
  assumes "difficulty_inv g"
  shows "difficulty_inv (exec g operation)"
proof (cases operation)
  case Start
  then show ?thesis by (simp add: difficulty_inv_def startGame_fields)
next
  case (Tick d now rnd shake)
  with assms show ?thesis by (simp add: update_difficulty_inv)
next
  case (Poll ok ms)
  with assms show ?thesis by (simp add: difficulty_inv_def poll_same)
next
  case (Serve ci now)
  show ?thesis
  proof (cases rule: begin_cases [of g ci now])
    case none
    with Serve assms show ?thesis by (simp add: serveCustomer_def)
  next
    case (some g1 c bi)
    with Serve assms show ?thesis
      by (simp add: difficulty_inv_def serveCustomer_def finish_same begin_fields [OF some])
  qed
next
  case (ServeBegin ci now)
  show ?thesis
  proof (cases rule: begin_cases [of g ci now])
    case none
    with ServeBegin assms show ?thesis by simp
  next
    case (some g1 c bi)
    with ServeBegin assms show ?thesis by (simp add: difficulty_inv_def begin_fields [OF some])
  qed
next
  case (ServeFinish c bi now)
  with assms show ?thesis by (simp add: difficulty_inv_def finish_same)
next
  case (Select i)
  with assms show ?thesis by (simp add: difficulty_inv_def small_same)
next
  case Pause
  with assms show ?thesis by (simp add: difficulty_inv_def small_same)
next
  case Resume
  with assms show ?thesis by (simp add: difficulty_inv_def small_same)
next
  case (SetDemo b)
  with assms show ?thesis by (simp add: difficulty_inv_def small_same)
qed

lemma game_inv_new: "game_inv (Game_new n)"
  by (simp add: game_inv_def slots_inv_fresh dedup_fresh roster_fresh combo_inv_def
      difficulty_inv_def Game_new_fields)

lemma game_inv_exec: "game_inv g \<Longrightarrow> op_ok operation \<Longrightarrow> game_inv (exec g operation)"
  by (simp add: game_inv_def slots_inv_exec dedup_exec roster_exec combo_exec difficulty_exec)

lemma reachable_inv: "reachable g \<Longrightarrow> game_inv g"
  by (induction rule: reachable.induct) (simp_all add: game_inv_new game_inv_exec)

lemma reachable_customer_ok:
  assumes "reachable g" and "c \<in> set (g_customers g)"
  shows "customer_ok c" and "1 \<le> g_difficulty g" and "g_difficulty g \<le> 3"
proof -
  from assms(1) have inv: "game_inv g" by (rule reachable_inv)
  then have "list_all settled (g_customers g)"
    by (simp add: game_inv_def roster_ok_alt)
  with assms(2) show "customer_ok c"
    by (simp add: list_all_iff settled_def)
  from inv show "1 \<le> g_difficulty g" and "g_difficulty g \<le> 3"
    by (simp_all add: game_inv_def difficulty_inv_def)
qed

section \<open>Game: capacity, correlation keys and the counters\<close>

text \<open>
  Concrete games and customers: the random source that always returns 0, the first demo
  customer as \<^verbatim>\<open>spawnCustomer\<close> makes it in a new round at time 6000, the game just after
  \<^verbatim>\<open>start()\<close>, and that game with every slot taken.
\<close>

definition rnd0 :: spawn_random where
  "rnd0 = \<lparr>r_type = 0, r_name = 0, r_message = 0\<rparr>"

definition guest :: customer where
  "guest = assignSlot (Customer_new 0 no_options rnd0 6000) 0"

lemma show_nat_1: "show_nat (Suc 0) = ''1''"
  unfolding show_nat.simps [of "Suc 0"] by code_simp

lemma guest_fields:
  "c_state guest = WALKING_IN" "c_x guest = 1350" "c_targetX guest = T_at 200"
  "ct_walkSpeed (c_type guest) = 2" "c_frameTimer guest = 0" "c_animationSpeed guest = 150"
  "c_phone guest = ''demo_1''" "c_slotIndex guest = Some 0" "\<not> c_isRemovable guest"
  "\<not> c_countedAsLost guest" "c_patience guest = 100" "c_maxPatience guest = 100"
  "\<not> c_isLeaving guest" "\<not> c_isServed guest"
  by (simp_all add: guest_def assignSlot_def Customer_new_def Let_def no_options_def rnd0_def
      random_index_def CUSTOMER_TYPES_def CUSTOMER_SLOTS_def CUSTOMER_SPAWN_X_def
      show_nat_1)

lemma animate_more [simp]:
  "c_x (customer_animate c d) = c_x c"
  "c_type (customer_animate c d) = c_type c"
  "c_isRemovable (customer_animate c d) = c_isRemovable c"
  by (simp_all add: customer_animate_def Let_def)

lemma shake_more [simp]:
  "c_isRemovable (customer_shake c r) = c_isRemovable c"
  "c_x (customer_shake c r) = c_x c"
  by (simp_all add: customer_shake_def)

lemma guest_arrives:
  "c_state (Customer_update guest 6000 1 (1 / 2)) = IDLE"
  "\<not> c_isRemovable (Customer_update guest 6000 1 (1 / 2))"
  by (simp_all add: Customer_update_def customer_dispatch_def updateWalkingIn_def Let_def
      guest_fields)

definition fresh :: game where
  "fresh = exec (Game_new 0) Start"

definition crowded :: game where
  "crowded = fresh\<lparr>g_customerSlots := [Some 1, Some 2, Some 3, Some 4, Some 5, Some 6]\<rparr>"

lemma reachable_fresh: "reachable fresh"
  unfolding fresh_def by (intro reachable_exec reachable_new) simp

lemma fresh_fields:
  "g_customers fresh = []" "g_customerSlots fresh = replicate 6 None"
  "g_pendingRealMessages fresh = []" "g_customerIdCounter fresh = 0"
  "g_score fresh = 0" "g_comboCount fresh = 0" "g_maxCombo fresh = 0"
  "g_customersLost fresh = 0" "g_state fresh = PLAYING" "g_difficulty fresh = 1"
  by (simp_all add: fresh_def startGame_def Game_new_def MAX_CUSTOMERS_def)

lemma spawned_fresh: "spawned fresh rnd0 6000 0 = guest"
  by (simp add: spawned_def guest_def fresh_fields)

lemma findIndex_free:
  "(findIndex (\<lambda>slot. slot = None) xs = None) = (None \<notin> set xs)"
  by (induction xs) auto

text \<open>
  C4.  In every reachable game the number of occupied slots is at most \<open>MAX_CUSTOMERS\<close>
  and equals the number of active customers.  A spawn attempt on a game with no
  \<^verbatim>\<open>null\<close> slot returns the game unchanged, pending queue included; with a free slot,
  the new customer is appended to the customers, and it is assigned, and stored at, the
  first index whose slot is \<^verbatim>\<open>null\<close>.
\<close>

theorem C4_capacity:
  "(reachable g \<longrightarrow>
      occupied (g_customerSlots g) \<le> MAX_CUSTOMERS \<and>
      occupied (g_customerSlots g) = length (g_customers g)) \<and>
   (None \<notin> set (g_customerSlots h) \<longrightarrow> spawnCustomer h rnd now = h) \<and>
   (None \<in> set (g_customerSlots h) \<longrightarrow>
      (\<exists>i < length (g_customerSlots h).
         g_customerSlots h ! i = None \<and> (\<forall>j<i. g_customerSlots h ! j \<noteq> None) \<and>
         g_customers (spawnCustomer h rnd now) = g_customers h @ [spawned h rnd now i] \<and>
         c_slotIndex (spawned h rnd now i) = Some i \<and>
         g_customerSlots (spawnCustomer h rnd now) =
           (g_customerSlots h)[i := Some (c_id (spawned h rnd now i))]))"
proof (intro conjI impI)
  assume "reachable g"
  then have inv: "slots_inv g" using reachable_inv by (simp add: game_inv_def)
  then have len: "length (g_customerSlots g) = MAX_CUSTOMERS" by (simp add: slots_inv_def)
  from occupied_le [of "g_customerSlots g"] len
  show "occupied (g_customerSlots g) \<le> MAX_CUSTOMERS" by simp
  from inv show "occupied (g_customerSlots g) = length (g_customers g)"
    by (rule slots_inv_count)
next
  assume "None \<notin> set (g_customerSlots h)"
  then have "findIndex (\<lambda>slot. slot = None) (g_customerSlots h) = None"
    by (simp add: findIndex_free)
  then show "spawnCustomer h rnd now = h" by (rule spawnCustomer_full)
next
  assume "None \<in> set (g_customerSlots h)"
  then have "findIndex (\<lambda>slot. slot = None) (g_customerSlots h) \<noteq> None"
    by (simp add: findIndex_free)
  then obtain i where i: "findIndex (\<lambda>slot. slot = None) (g_customerSlots h) = Some i"
    by auto
  from findIndex_Some [OF i] spawnCustomer_free(1,2) [OF i, of rnd now]
  show "\<exists>i < length (g_customerSlots h).
         g_customerSlots h ! i = None \<and> (\<forall>j<i. g_customerSlots h ! j \<noteq> None) \<and>
         g_customers (spawnCustomer h rnd now) = g_customers h @ [spawned h rnd now i] \<and>
         c_slotIndex (spawned h rnd now i) = Some i \<and>
         g_customerSlots (spawnCustomer h rnd now) =
           (g_customerSlots h)[i := Some (c_id (spawned h rnd now i))]"
    by (intro exI [of _ i]) (simp add: spawned_fields)
qed

text \<open>
  The game just started is reachable, with no slot occupied and no customer; on the
  game with all six slots taken the spawn attempt changes nothing.
\<close>

theorem C4_capacity_witness:
  "reachable fresh \<and> occupied (g_customerSlots fresh) = 0 \<and> length (g_customers fresh) = 0 \<and>
   None \<notin> set (g_customerSlots crowded) \<and> spawnCustomer crowded rnd0 6000 = crowded \<and>
   None \<in> set (g_customerSlots fresh)"
  using C4_capacity [of fresh crowded rnd0 6000] reachable_fresh
  by (simp add: fresh_fields crowded_def occupied_def)

text \<open>
  A message from a phone number, and the game that, live, has polled it twice in one
  result.
\<close>

definition hello :: incoming_message where
  "hello = \<lparr>in_id = ''m1'', in_phone = ''972501234567'', in_message = ''Shalom'',
            in_sender_name = ''Dana''\<rparr>"

definition polled_twice :: game where
  "polled_twice = exec (exec fresh (SetDemo False)) (Poll True [hello, hello])"

lemma reachable_polled_twice: "reachable polled_twice"
  unfolding polled_twice_def using reachable_fresh
  by (intro reachable_exec) simp_all

lemma polled_twice_fields:
  "g_customers polled_twice = []"
  "map p_phone (g_pendingRealMessages polled_twice) = [''972501234567'']"
  by (simp_all add: polled_twice_def pollIncomingMessages_def enqueue_message_def
      setDemoMode_def hello_def fresh_fields Let_def)

text \<open>
  C5.  A real-customer correlation key is a phone number: a key that is not of the
  placeholder form \<^verbatim>\<open>demo_<id>\<close> the constructor generates (\<open>real_key\<close>).  In every
  reachable game, for every such key, the active customers and the queued records that
  carry it number at most one.  The only check is the one at enqueue time: the loop body
  of the ingestion appends a record for the polled phone exactly when no active customer
  and no queued record has that phone, and touches no customer; dequeue, spawn and
  removal are among the operations of \<open>reachable\<close> and have no check of their own.
\<close>

theorem C5_one_entity_per_key:
  "(reachable g \<longrightarrow> real_key p \<longrightarrow> key_count g p \<le> 1) \<and>
   map p_phone (g_pendingRealMessages (enqueue_message h msg)) =
     (if list_ex (\<lambda>c. c_phone c = in_phone msg) (g_customers h) \<or>
         list_ex (\<lambda>m. p_phone m = in_phone msg) (g_pendingRealMessages h)
      then map p_phone (g_pendingRealMessages h)
      else map p_phone (g_pendingRealMessages h) @ [in_phone msg]) \<and>
   g_customers (enqueue_message h msg) = g_customers h"
proof (intro conjI impI)
  assume "reachable g" and "real_key p"
  with reachable_inv [of g] show "key_count g p \<le> 1"
    by (simp add: game_inv_def dedup_inv_def)
next
  show "map p_phone (g_pendingRealMessages (enqueue_message h msg)) =
     (if list_ex (\<lambda>c. c_phone c = in_phone msg) (g_customers h) \<or>
         list_ex (\<lambda>m. p_phone m = in_phone msg) (g_pendingRealMessages h)
      then map p_phone (g_pendingRealMessages h)
      else map p_phone (g_pendingRealMessages h) @ [in_phone msg])"
    by (simp add: enqueue_message_def Let_def)
  show "g_customers (enqueue_message h msg) = g_customers h"
    by (simp add: enqueue_message_def Let_def)
qed

text \<open>The same phone polled twice is queued once.\<close>

theorem C5_one_entity_per_key_witness:
  "reachable polled_twice \<and> real_key ''972501234567'' \<and>
   key_count polled_twice ''972501234567'' = 1"
  using C5_one_entity_per_key [of polled_twice "''972501234567''"] reachable_polled_twice
  by (simp add: real_key_def key_count_alt polled_twice_fields)

text \<open>The office worker, served.\<close>

definition served_worker :: customer where
  "served_worker = snd (serve worker)"

lemma served_worker_fields:
  "customer_ok served_worker" "c_isServed served_worker"
  "getPatiencePercent served_worker = 30"
  by (simp_all add: served_worker_def serve_def worker_fields customer_ok_def
      getPatiencePercent_def)

text \<open>
  C10.  From a reachable game, every operation other than \<open>Start\<close> leaves the score and
  \<open>maxCombo\<close> at least what they were, and after every operation, \<open>Start\<close> included,
  \<open>comboCount\<close> is at most \<open>maxCombo\<close>.  The operations are the ticks (with random
  numbers in \<open>[0, 1)\<close>), the poll results, both halves of a serve, the selection of a
  bottle, pause, resume and the demo-mode switch.
\<close>

theorem C10_score_and_combo_monotone:
  "reachable g \<Longrightarrow> op_ok operation \<Longrightarrow>
   (operation \<noteq> Start \<longrightarrow>
      g_score g \<le> g_score (exec g operation) \<and>
      g_maxCombo g \<le> g_maxCombo (exec g operation)) \<and>
   g_comboCount (exec g operation) \<le> g_maxCombo (exec g operation)"
proof -
  assume r: "reachable g" and ok: "op_ok operation"
  from r have inv: "game_inv g" by (rule reachable_inv)
  then have "combo_inv (exec g operation)"
    by (simp add: game_inv_def combo_exec)
  moreover from inv have "roster_ok g" by (simp add: game_inv_def)
  note exec_counters [OF this ok]
  ultimately show ?thesis by (simp add: combo_inv_def)
qed

text \<open>
  Scoring the served office worker (30 percent patience) in the game just started:
  the score goes from 0 to 130.
\<close>

theorem C10_score_and_combo_monotone_witness:
  "reachable fresh \<and> op_ok (ServeFinish served_worker 0 1000) \<and>
   g_score fresh = 0 \<and> g_score (exec fresh (ServeFinish served_worker 0 1000)) = 130 \<and>
   g_maxCombo fresh \<le> g_maxCombo (exec fresh (ServeFinish served_worker 0 1000)) \<and>
   g_comboCount (exec fresh (ServeFinish served_worker 0 1000))
     \<le> g_maxCombo (exec fresh (ServeFinish served_worker 0 1000))"
  using C10_score_and_combo_monotone [of fresh "ServeFinish served_worker 0 1000"]
    reachable_fresh
  by (simp add: served_worker_fields finish_fields servePoints_def fresh_fields GAME_CONFIG)

section \<open>Game: customers lost in a tick\<close>

text \<open>
  The number of customers that enter the storming-off state in the tick that
  \<^verbatim>\<open>update(deltaTime)\<close> runs on \<open>g\<close>: those not storming off before whose own update
  leaves them storming off.  (A customer spawned in the same tick is walking in and
  cannot be among them.)
\<close>

definition stormsOff :: "game \<Rightarrow> real \<Rightarrow> (nat \<Rightarrow> real) \<Rightarrow> nat" where
  "stormsOff g deltaTime shake =
    length (filter (\<lambda>(i, customer). c_state customer \<noteq> STORMING_OFF \<and>
        c_state (Customer_update customer deltaTime (g_difficulty g) (shake i)) = STORMING_OFF)
      (enumerate 0 (g_customers g)))"

lemma newlyLost_update:
  assumes "settled c"
  shows "newlyLost (Customer_update c d D r) =
    (c_state c \<noteq> STORMING_OFF \<and> c_state (Customer_update c d D r) = STORMING_OFF)"
proof (cases "c_state c = STORMING_OFF")
  case True
  with assms have "c_countedAsLost (Customer_update c d D r)"
    by (simp add: settled_def Customer_update_keeps)
  with True show ?thesis by (simp add: newlyLost_def)
next
  case False
  with assms have "\<not> c_countedAsLost (Customer_update c d D r)"
    by (simp add: settled_def Customer_update_keeps)
  with False show ?thesis by (simp add: newlyLost_def)
qed

lemma newlyLost_count:
  "list_all settled cs \<Longrightarrow>
   length (filter newlyLost
     (map (\<lambda>(i, customer). Customer_update customer d D (shake i)) (enumerate n cs))) =
   length (filter (\<lambda>(i, customer). c_state customer \<noteq> STORMING_OFF \<and>
        c_state (Customer_update customer d D (shake i)) = STORMING_OFF) (enumerate n cs))"
  by (induction cs arbitrary: n) (simp_all add: newlyLost_update)

lemma newcomer_stays:
  assumes "c_state x = WALKING_IN"
  shows "c_state (Customer_update x d D r) \<noteq> STORMING_OFF"
proof -
  from assms updateWalkingIn_fields(5) [of "customer_animate x d" d]
  have "c_state (customer_dispatch (customer_animate x d) d D) = WALKING_IN \<or>
        c_state (customer_dispatch (customer_animate x d) d D) = IDLE"
    by (simp add: customer_dispatch_def)
  then show ?thesis by (auto simp add: Customer_update_def)
qed

lemma enumerate_snoc: "enumerate n (xs @ [x]) = enumerate n xs @ [(n + length xs, x)]"
  by (simp add: enumerate_append_eq)

lemma update_spawn_customers:
  "g_customers (update_spawn d rnd now g) = g_customers g \<or>
   (\<exists>x. c_state x = WALKING_IN \<and> g_customers (update_spawn d rnd now g) = g_customers g @ [x])"
proof (cases "spawn_due d g")
  case False
  then show ?thesis by (simp add: update_spawn_alt)
next
  case True
  show ?thesis
  proof (cases "findIndex (\<lambda>slot. slot = None) (g_customerSlots (g\<lparr>g_lastSpawnTime := 0\<rparr>))")
    case None
    with True show ?thesis by (simp add: update_spawn_alt spawnCustomer_full)
  next
    case (Some i)
    from spawnCustomer_free(1) [OF Some, of rnd now] True
    have "g_customers (update_spawn d rnd now g) =
        g_customers g @ [spawned (g\<lparr>g_lastSpawnTime := 0\<rparr>) rnd now i]"
      by (simp add: update_spawn_alt)
    then show ?thesis using spawned_fields(2) by blast
  qed
qed

lemma lost_after_spawn:
  assumes "list_all settled cs"
    and "cs2 = cs \<or> (\<exists>x. c_state x = WALKING_IN \<and> cs2 = cs @ [x])"
  shows "length (filter newlyLost
      (map (\<lambda>(i, customer). Customer_update customer d D (shake i)) (enumerate 0 cs2))) =
    length (filter (\<lambda>(i, customer). c_state customer \<noteq> STORMING_OFF \<and>
        c_state (Customer_update customer d D (shake i)) = STORMING_OFF) (enumerate 0 cs))"
  using assms(2)
proof
  assume "cs2 = cs"
  with newlyLost_count [OF assms(1), of d D shake 0] show ?thesis by simp
next
  assume "\<exists>x. c_state x = WALKING_IN \<and> cs2 = cs @ [x]"
  then obtain x where x: "c_state x = WALKING_IN" and cs2: "cs2 = cs @ [x]" by blast
  from newcomer_stays [OF x] have "\<not> newlyLost (Customer_update x d D (shake (length cs)))"
    by (simp add: newlyLost_def)
  with newlyLost_count [OF assms(1), of d D shake 0] show ?thesis
    by (simp add: cs2 enumerate_snoc)
qed

text \<open>
  C6.  In a playing game in which the storm-offs of earlier ticks have been counted
  (\<open>roster_ok\<close>, which holds in every reachable game), the tick in which \<open>n\<close> customers
  enter the storming-off state adds exactly \<open>n\<close> to \<open>customersLost\<close>, one for each; if
  there is such a customer, \<open>comboCount\<close> is 0 after the tick, whoever was served last,
  and if \<open>customersLost\<close> has reached \<open>MAX_LOST\<close> the state after that same tick is
  gameover.  A tick in which nobody storms off leaves the game playing.
\<close>

theorem C6_storm_off_counted:
  assumes "roster_ok g" and "g_state g = PLAYING"
  shows "g_customersLost (Game_update g d now rnd shake) = g_customersLost g + stormsOff g d shake \<and>
    (0 < stormsOff g d shake \<longrightarrow>
       g_comboCount (Game_update g d now rnd shake) = 0 \<and>
       (MAX_LOST \<le> g_customersLost (Game_update g d now rnd shake) \<longrightarrow>
          g_state (Game_update g d now rnd shake) = GAMEOVER)) \<and>
    (stormsOff g d shake = 0 \<longrightarrow> g_state (Game_update g d now rnd shake) = PLAYING)"
proof -
  let ?g1 = "update_poll d (update_combo d g)"
  let ?g2 = "update_spawn d rnd now ?g1"
  let ?g3 = "update_customers d shake ?g2"
  let ?g4 = "update_lost ?g3"
  let ?n = "stormsOff g d shake"
  have c2: "g_customers ?g2 = g_customers g \<or>
     (\<exists>x. c_state x = WALKING_IN \<and> g_customers ?g2 = g_customers g @ [x])"
    using update_spawn_customers [of d rnd now ?g1]
    by (simp add: update_poll_same update_combo_same)
  have d2: "g_difficulty ?g2 = g_difficulty g"
    by (simp add: update_spawn_same update_poll_same update_combo_same)
  have n: "length (filter newlyLost (g_customers ?g3)) = ?n"
    unfolding update_customers_customers stormsOff_def d2
    using assms(1) [unfolded roster_ok_alt] c2 by (rule lost_after_spawn)
  have l3: "g_customersLost ?g3 = g_customersLost g" and s3: "g_state ?g3 = PLAYING"
    using assms(2)
    by (simp_all add: update_customers_same update_spawn_same update_poll_same
        update_combo_same)
  have fin: "g_customersLost (Game_update g d now rnd shake) = g_customersLost ?g4"
    "g_comboCount (Game_update g d now rnd shake) = g_comboCount ?g4"
    "g_state (Game_update g d now rnd shake) = g_state ?g4"
    using assms(2)
    by (simp_all add: Game_update_def update_difficulty_same update_bottles_same
        update_remove_same)
  have l4: "g_customersLost ?g4 = g_customersLost g + ?n"
    by (simp only: update_lost_fields n l3)
  have e: "(filter newlyLost (g_customers ?g3) = []) = (?n = 0)"
    using n by (metis length_0_conv)
  have c4: "0 < ?n \<Longrightarrow> g_comboCount ?g4 = 0"
    by (simp add: update_lost_fields(3) e)
  have s4: "g_state ?g4 = (if 0 < ?n \<and> MAX_LOST \<le> g_customersLost g + ?n then GAMEOVER else PLAYING)"
    by (simp add: update_lost_fields(4) e n l3 s3)
  from l4 c4 s4 show ?thesis
    by (simp add: fin)
qed

text \<open>
  A playing game with four customers lost, a combo of 2, and one idle office worker
  with a thousandth of a patience point left.
\<close>

definition last_straw :: game where
  "last_straw =
    fresh\<lparr>g_customers := [worker\<lparr>c_patience := 1 / 1000\<rparr>],
          g_customersLost := 4, g_comboCount := 2, g_maxCombo := 2\<rparr>"

lemma last_straw_fields:
  "g_state last_straw = PLAYING" "g_customersLost last_straw = 4"
  "g_comboCount last_straw = 2" "g_difficulty last_straw = 1"
  "g_customers last_straw = [worker\<lparr>c_patience := 1 / 1000\<rparr>]"
  by (simp_all add: last_straw_def fresh_fields)

lemma last_straw_roster: "roster_ok last_straw"
  by (simp add: roster_ok_def last_straw_fields customer_ok_def worker_def
      assignSlot_def Customer_new_def Let_def CUSTOMER_TYPES_def no_options_def)

lemma last_straw_storms: "stormsOff last_straw 16 (\<lambda>i. 1 / 2) = 1"
proof -
  let ?w = "worker\<lparr>c_patience := 1 / 1000\<rparr>"
  have w: "waiting ?w" by (simp add: waiting_def worker_fields)
  have "decayed ?w 16 1 = 0"
    by (simp add: decayed_def PATIENCE_DECAY_RATE_def)
  with update_waiting_state [OF w, of 16 1 "1 / 2"]
  have "c_state (Customer_update ?w 16 1 (1 / 2)) = STORMING_OFF"
    by (simp add: worker_fields)
  then show ?thesis
    by (simp add: stormsOff_def last_straw_fields worker_fields)
qed

text \<open>
  One tick of 16 ms: the worker storms off, \<open>customersLost\<close> goes from 4 to 5, the combo
  from 2 to 0, and the game is over after that tick.
\<close>

theorem C6_storm_off_counted_witness:
  "roster_ok last_straw \<and> g_state last_straw = PLAYING \<and>
   g_customersLost last_straw = 4 \<and> g_comboCount last_straw = 2 \<and>
   stormsOff last_straw 16 (\<lambda>i. 1 / 2) = 1 \<and>
   g_customersLost (Game_update last_straw 16 7000 rnd0 (\<lambda>i. 1 / 2)) = 5 \<and>
   g_comboCount (Game_update last_straw 16 7000 rnd0 (\<lambda>i. 1 / 2)) = 0 \<and>
   g_state (Game_update last_straw 16 7000 rnd0 (\<lambda>i. 1 / 2)) = GAMEOVER"
  using C6_storm_off_counted [OF last_straw_roster, of 16 7000 rnd0 "\<lambda>i. 1 / 2"]
  by (simp add: last_straw_fields last_straw_storms last_straw_roster MAX_LOST_def)

section \<open>Game: scoring a chain of serves\<close>

text \<open>
  What may happen between two serves of a combo chain without breaking it: operations
  that do not touch the counters, and update ticks whose delta is less than what is left
  of the combo timer (the serve sets it to \<open>COMBO_TIMEOUT\<close>, every tick takes its delta
  off, so the deltas since the serve sum to less than \<open>COMBO_TIMEOUT\<close>) and in which no
  customer is lost.
\<close>

fun quiet :: "operation \<Rightarrow> bool" where
  "quiet (Select index) = True"
| "quiet Pause = True"
| "quiet Resume = True"
| "quiet (Poll success messages) = True"
| "quiet (SetDemo value) = True"
| "quiet other = False"

inductive between :: "game \<Rightarrow> game \<Rightarrow> bool" where
  between_refl: "between g g"
| between_quiet: "between g g' \<Longrightarrow> quiet operation \<Longrightarrow> between g (exec g' operation)"
| between_tick:
    "between g g' \<Longrightarrow> deltaTime < g_comboTimer g' \<Longrightarrow>
     g_customersLost (Game_update g' deltaTime now rnd shake) = g_customersLost g' \<Longrightarrow>
     between g (Game_update g' deltaTime now rnd shake)"

lemma quiet_keeps:
  "quiet operation \<Longrightarrow>
   g_comboCount (exec g operation) = g_comboCount g \<and>
   g_maxCombo (exec g operation) = g_maxCombo g \<and>
   g_score (exec g operation) = g_score g"
  by (cases operation) (simp_all add: small_same poll_same)

lemma tick_keeps:
  assumes "d < g_comboTimer g"
    and "g_customersLost (Game_update g d now rnd shake) = g_customersLost g"
  shows "g_comboCount (Game_update g d now rnd shake) = g_comboCount g \<and>
   g_maxCombo (Game_update g d now rnd shake) = g_maxCombo g \<and>
   g_score (Game_update g d now rnd shake) = g_score g"
proof (cases "g_state g = PLAYING")
  case False
  then show ?thesis by (simp add: Game_update_def)
next
  case True
  let ?g3 = "update_customers d shake (update_spawn d rnd now (update_poll d (update_combo d g)))"
  have l3: "g_customersLost ?g3 = g_customersLost g"
    by (simp add: update_customers_same update_spawn_same update_poll_same update_combo_same)
  have "g_customersLost (Game_update g d now rnd shake) =
      g_customersLost g + length (filter newlyLost (g_customers ?g3))"
    using True
    by (simp add: Game_update_def update_difficulty_same update_bottles_same
        update_remove_same update_lost_fields l3)
  with assms(2) have none: "filter newlyLost (g_customers ?g3) = []" by simp
  have "g_comboCount (Game_update g d now rnd shake) = g_comboCount (update_combo d g)"
    using True
    by (simp add: Game_update_def update_difficulty_same update_bottles_same
        update_remove_same update_lost_fields none update_customers_same update_spawn_same
        update_poll_same)
  with assms(1) have "g_comboCount (Game_update g d now rnd shake) = g_comboCount g"
    by (simp add: update_combo_combo)
  with update_counters(1,2) [OF True, of d now rnd shake] show ?thesis by simp
qed

lemma between_keeps:
  "between g g' \<Longrightarrow>
   g_comboCount g' = g_comboCount g \<and> g_maxCombo g' = g_maxCombo g \<and> g_score g' = g_score g"
proof (induction rule: between.induct)
  case (between_refl g)
  show ?case by simp
next
  case (between_quiet g g' operation)
  with quiet_keeps [of operation g'] show ?case by simp
next
  case (between_tick g g' deltaTime now rnd shake)
  with tick_keeps [of deltaTime g' now rnd shake] show ?case by simp
qed

lemma begin_ok:
  "g_selectedBottleIndex g = Some bi \<Longrightarrow> ci < length (g_customers g) \<Longrightarrow>
   bi < length (g_bottles g) \<Longrightarrow> \<not> bt_locked (b_type (g_bottles g ! bi)) \<Longrightarrow>
   \<not> isOnCooldown (g_bottles g ! bi) now \<Longrightarrow> fst (serve (g_customers g ! ci)) \<Longrightarrow>
   serveCustomer_begin g ci now \<noteq> None"
  by (simp add: serveCustomer_begin_def)

lemma getPatiencePercent_serve:
  "getPatiencePercent (snd (serve c)) = getPatiencePercent c"
  by (simp add: getPatiencePercent_def serve_keeps)

lemma serve_scores:
  assumes "serveCustomer_begin g ci now \<noteq> None"
  shows "g_score (serveCustomer g ci now) = g_score g + servePoints g (g_customers g ! ci)"
    and "g_comboCount (serveCustomer g ci now) = g_comboCount g + 1"
    and "g_maxCombo (serveCustomer g ci now) = max (g_maxCombo g) (g_comboCount g + 1)"
    and "g_comboTimer (serveCustomer g ci now) = COMBO_TIMEOUT"
proof -
  from assms obtain g1 c bi where b: "serveCustomer_begin g ci now = Some (g1, c, bi)"
    by (cases rule: begin_cases [of g ci now]) auto
  have p: "servePoints g1 c = servePoints g (g_customers g ! ci)"
    by (simp add: servePoints_def begin_fields [OF b] begin_Some(7) [OF b]
        getPatiencePercent_serve)
  show "g_score (serveCustomer g ci now) = g_score g + servePoints g (g_customers g ! ci)"
    by (simp add: serveCustomer_def b finish_fields p begin_fields [OF b])
  show "g_comboCount (serveCustomer g ci now) = g_comboCount g + 1"
    by (simp add: serveCustomer_def b finish_fields begin_fields [OF b])
  show "g_maxCombo (serveCustomer g ci now) = max (g_maxCombo g) (g_comboCount g + 1)"
    by (simp add: serveCustomer_def b finish_fields begin_fields [OF b])
  show "g_comboTimer (serveCustomer g ci now) = COMBO_TIMEOUT"
    by (simp add: serveCustomer_def b finish_fields)
qed

lemma servePoints_80:
  "getPatiencePercent c = 80 \<Longrightarrow> servePoints g c = 180 + 25 * int (g_comboCount g)"
  by (simp add: servePoints_def GAME_CONFIG)


lemma serve_frame:
  assumes "serveCustomer_begin g ci now \<noteq> None" and "g_selectedBottleIndex g = Some bi"
  shows "g_customers (serveCustomer g ci now) =
      (g_customers g)[ci := snd (serve (g_customers g ! ci))]"
    and "g_selectedBottleIndex (serveCustomer g ci now) = Some bi"
    and "g_bottles (serveCustomer g ci now) = (g_bottles g)[bi := snd (use (g_bottles g ! bi) now)]"
    and "g_state (serveCustomer g ci now) = g_state g"
proof -
  from assms(1) obtain g1 c bi' where b: "serveCustomer_begin g ci now = Some (g1, c, bi')"
    by (cases rule: begin_cases [of g ci now]) auto
  from begin_Some(1) [OF b] assms(2) have bi: "bi' = bi" by simp
  note g1 = begin_Some(8) [OF b]
  show "g_customers (serveCustomer g ci now) =
      (g_customers g)[ci := snd (serve (g_customers g ! ci))]"
    by (simp add: serveCustomer_def b finish_same begin_fields [OF b])
  show "g_selectedBottleIndex (serveCustomer g ci now) = Some bi"
    by (simp add: serveCustomer_def b serveCustomer_finish_def Let_def g1 assms(2))
  show "g_bottles (serveCustomer g ci now) = (g_bottles g)[bi := snd (use (g_bottles g ! bi) now)]"
    by (simp add: serveCustomer_def b serveCustomer_finish_def Let_def g1 bi)
  show "g_state (serveCustomer g ci now) = g_state g"
    by (simp add: serveCustomer_def b finish_same begin_fields [OF b])
qed

lemma selectBottle_fields:
  assumes "g_state g = PLAYING" and "index < length (g_bottles g)"
    and "\<not> bt_locked (b_type (g_bottles g ! index))"
  shows "g_selectedBottleIndex (selectBottle g index) = Some index"
    and "g_bottles (selectBottle g index) = g_bottles g"
    and "g_customers (selectBottle g index) = g_customers g"
    and "g_state (selectBottle g index) = PLAYING"
  using assms by (simp_all add: selectBottle_def)

lemma use_type [simp]: "b_type (snd (use b now)) = b_type b"
  by (simp add: use_def)

text \<open>
  Three office workers at 80 of 100 patience lined up at the bar of a playing game, the
  first bottle selected and the shelf as at the start of the round; each serve is
  followed by the selection of the next bottle.
\<close>

definition c80 :: customer where
  "c80 = worker\<lparr>c_patience := 80\<rparr>"

definition lined :: "game \<Rightarrow> bool" where
  "lined g = (g_customers g = [c80, c80, c80] \<and> g_selectedBottleIndex g = Some 0 \<and>
     g_bottles g = g_bottles fresh \<and> g_state g = PLAYING)"

definition after_first :: "game \<Rightarrow> game" where
  "after_first g = exec (serveCustomer g 0 1000) (Select 1)"

definition after_second :: "game \<Rightarrow> game" where
  "after_second g = exec (serveCustomer (after_first g) 1 2000) (Select 2)"

definition trio :: game where
  "trio = fresh\<lparr>g_customers := [c80, c80, c80], g_selectedBottleIndex := Some 0\<rparr>"



lemma c80_fields:
  "getPatiencePercent c80 = 80" "fst (serve c80)"
  by (simp_all add: c80_def getPatiencePercent_def worker_fields serve_def)

lemma fresh_bottles:
  "map (\<lambda>b. bt_locked (b_type b)) (g_bottles fresh) = [False, False, False, False, True]"
  "map b_cooldownEnd (g_bottles fresh) = [0, 0, 0, 0, 0]"
  by (simp_all add: fresh_def startGame_def Game_new_def BOTTLE_TYPES_def Bottle_new_def
      Let_def comp_def)

lemma fresh_shelf:
  "length (g_bottles fresh) = 5"
  "i < 4 \<Longrightarrow> \<not> bt_locked (b_type (g_bottles fresh ! i))"
  "i < 5 \<Longrightarrow> b_cooldownEnd (g_bottles fresh ! i) = 0"
proof -
  have "length (map (\<lambda>b. bt_locked (b_type b)) (g_bottles fresh)) = 5"
    unfolding fresh_bottles by simp
  then show len: "length (g_bottles fresh) = 5" by simp
  {
    assume i: "i < 4"
    then have "bt_locked (b_type (g_bottles fresh ! i)) =
        map (\<lambda>b. bt_locked (b_type b)) (g_bottles fresh) ! i"
      using len by simp
    also have "\<dots> = [False, False, False, False, True] ! i"
      by (simp only: fresh_bottles)
    finally show "\<not> bt_locked (b_type (g_bottles fresh ! i))"
      using i by (auto simp add: nth_Cons' )
  }
  {
    assume i: "i < 5"
    then have "b_cooldownEnd (g_bottles fresh ! i) = map b_cooldownEnd (g_bottles fresh) ! i"
      using len by simp
    also have "\<dots> = [0, 0, 0, 0, 0] ! i"
      by (simp only: fresh_bottles)
    finally show "b_cooldownEnd (g_bottles fresh ! i) = 0"
      using i by (auto simp add: nth_Cons')
  }
qed

lemma lined_serve1: "lined g \<Longrightarrow> serveCustomer_begin g 0 1000 \<noteq> None"
  by (rule begin_ok [where bi = 0])
    (simp_all add: lined_def fresh_shelf c80_fields isOnCooldown_def)

lemma after_first_fields:
  assumes "lined g"
  shows "g_customers (after_first g) = [snd (serve c80), c80, c80]"
    and "g_selectedBottleIndex (after_first g) = Some 1"
    and "g_bottles (after_first g) = (g_bottles fresh)[0 := snd (use (g_bottles fresh ! 0) 1000)]"
    and "g_state (after_first g) = PLAYING"
proof -
  from assms have l: "g_customers g = [c80, c80, c80]" "g_selectedBottleIndex g = Some 0"
    "g_bottles g = g_bottles fresh" "g_state g = PLAYING"
    by (simp_all add: lined_def)
  note f = serve_frame [OF lined_serve1 [OF assms] l(2)]
  have pre: "g_state (serveCustomer g 0 1000) = PLAYING"
    "Suc 0 < length (g_bottles (serveCustomer g 0 1000))"
    "\<not> bt_locked (b_type (g_bottles (serveCustomer g 0 1000) ! Suc 0))"
    by (simp_all add: f l fresh_shelf)
  note s = selectBottle_fields [OF pre]
  show "g_customers (after_first g) = [snd (serve c80), c80, c80]"
    by (simp add: after_first_def s f l)
  show "g_selectedBottleIndex (after_first g) = Some 1" by (simp add: after_first_def s)
  show "g_bottles (after_first g) = (g_bottles fresh)[0 := snd (use (g_bottles fresh ! 0) 1000)]"
    by (simp add: after_first_def s f l)
  show "g_state (after_first g) = PLAYING" by (simp add: after_first_def s)
qed

lemma lined_serve2: "lined g \<Longrightarrow> serveCustomer_begin (after_first g) 1 2000 \<noteq> None"
  by (rule begin_ok [where bi = 1])
    (simp_all add: after_first_fields fresh_shelf c80_fields isOnCooldown_def)

lemma after_second_fields:
  assumes "lined g"
  shows "g_customers (after_second g) = [snd (serve c80), snd (serve c80), c80]"
    and "g_selectedBottleIndex (after_second g) = Some 2"
    and "g_bottles (after_second g) = (g_bottles fresh)[0 := snd (use (g_bottles fresh ! 0) 1000),
      1 := snd (use (g_bottles fresh ! 1) 2000)]"
    and "g_state (after_second g) = PLAYING"
proof -
  note l = after_first_fields [OF assms]
  note f = serve_frame [OF lined_serve2 [OF assms] l(2), unfolded One_nat_def]
  have pre: "g_state (serveCustomer (after_first g) (Suc 0) 2000) = PLAYING"
    "2 < length (g_bottles (serveCustomer (after_first g) (Suc 0) 2000))"
    "\<not> bt_locked (b_type (g_bottles (serveCustomer (after_first g) (Suc 0) 2000) ! 2))"
    by (simp_all add: f l fresh_shelf)
  note s = selectBottle_fields [OF pre]
  show "g_customers (after_second g) = [snd (serve c80), snd (serve c80), c80]"
    by (simp add: after_second_def s f l)
  show "g_selectedBottleIndex (after_second g) = Some 2" by (simp add: after_second_def s)
  show "g_bottles (after_second g) = (g_bottles fresh)[0 := snd (use (g_bottles fresh ! 0) 1000),
      1 := snd (use (g_bottles fresh ! 1) 2000)]"
    by (simp add: after_second_def s f l)
  show "g_state (after_second g) = PLAYING" by (simp add: after_second_def s)
qed

lemma lined_serve3: "lined g \<Longrightarrow> serveCustomer_begin (after_second g) 2 2500 \<noteq> None"
  by (rule begin_ok [where bi = 2])
    (simp_all add: after_second_fields fresh_shelf c80_fields isOnCooldown_def)

lemma lined_between:
  "between (serveCustomer g 0 1000) (after_first g)"
  "between (serveCustomer (after_first g) 1 2000) (after_second g)"
  unfolding after_first_def after_second_def
  by (rule between_quiet [OF between_refl], simp)+

lemma trio_fields:
  "g_customers trio = [c80, c80, c80]" "g_selectedBottleIndex trio = Some 0"
  "g_bottles trio = g_bottles fresh" "g_state trio = PLAYING" "g_score trio = 0"
  "g_comboCount trio = 0" "g_maxCombo trio = 0"
  by (simp_all add: trio_def fresh_fields)









section \<open>Game: a chain of serves that a lost customer breaks\<close>

text \<open>
  What one update tick does to the shelf, the customers and the counters of a playing
  game when no spawn is due.
\<close>

lemma checkLost_selected:
  "g_selectedBottleIndex (snd (checkLost cs g)) = g_selectedBottleIndex g"
  by (induction cs g rule: checkLost.induct) (simp_all add: Let_def gameOver_def)

lemma tick_shelf:
  assumes "g_state g = PLAYING"
  shows "g_selectedBottleIndex (Game_update g d now rnd shake) = g_selectedBottleIndex g"
    and "g_bottles (Game_update g d now rnd shake) =
      map (\<lambda>bottle. Bottle_update bottle d now) (g_bottles g)"
proof -
  let ?g1 = "update_poll d (update_combo d g)"
  let ?g2 = "update_spawn d rnd now ?g1"
  let ?g3 = "update_lost (update_customers d shake ?g2)"
  have g1: "g_selectedBottleIndex ?g1 = g_selectedBottleIndex g" "g_bottles ?g1 = g_bottles g"
    by (simp_all add: update_poll_def update_combo_def Let_def)
  have g2: "g_selectedBottleIndex ?g2 = g_selectedBottleIndex ?g1" "g_bottles ?g2 = g_bottles ?g1"
    by (simp_all add: update_spawn_alt spawnCustomer_def Let_def split: option.split)
  have g3: "g_selectedBottleIndex ?g3 = g_selectedBottleIndex ?g2" "g_bottles ?g3 = g_bottles ?g2"
    by (simp_all add: update_lost_def Let_def checkLost_selected checkLost_same
        update_customers_def)
  show "g_selectedBottleIndex (Game_update g d now rnd shake) = g_selectedBottleIndex g"
    using assms
    by (simp add: Game_update_def update_difficulty_def update_bottles_def update_remove_def
        g3 g2 g1)
  show "g_bottles (Game_update g d now rnd shake) =
      map (\<lambda>bottle. Bottle_update bottle d now) (g_bottles g)"
    using assms
    by (simp add: Game_update_def update_difficulty_def update_bottles_def update_remove_def
        g3 g2 g1)
qed

lemma spawn_due_later:
  "spawn_due d (update_poll d (update_combo d g)) = spawn_due d g"
  by (simp add: spawn_due_def update_poll_def update_combo_def Let_def)

lemma tick_roster:
  assumes "g_state g = PLAYING" and "\<not> spawn_due d g"
  shows "g_customers (Game_update g d now rnd shake) =
      filter (\<lambda>customer. \<not> c_isRemovable customer)
        (map markLost
          (map (\<lambda>(i, customer). Customer_update customer d (g_difficulty g) (shake i))
            (enumerate 0 (g_customers g))))"
    and "g_comboCount (Game_update g d now rnd shake) =
      (if filter newlyLost
            (map (\<lambda>(i, customer). Customer_update customer d (g_difficulty g) (shake i))
              (enumerate 0 (g_customers g))) = []
       then g_comboCount (update_combo d g) else 0)"
proof -
  let ?g1 = "update_poll d (update_combo d g)"
  let ?g2 = "update_spawn d rnd now ?g1"
  from assms(2) have due: "\<not> spawn_due d ?g1" by (simp add: spawn_due_later)
  have c2: "g_customers ?g2 = g_customers g"
    using due by (simp add: update_spawn_alt update_poll_same update_combo_same)
  have d2: "g_difficulty ?g2 = g_difficulty g"
    by (simp add: update_spawn_same update_poll_same update_combo_same)
  have k2: "g_comboCount ?g2 = g_comboCount (update_combo d g)"
    by (simp add: update_spawn_same update_poll_same)
  show "g_customers (Game_update g d now rnd shake) =
      filter (\<lambda>customer. \<not> c_isRemovable customer)
        (map markLost
          (map (\<lambda>(i, customer). Customer_update customer d (g_difficulty g) (shake i))
            (enumerate 0 (g_customers g))))"
    using assms(1)
    by (simp only: Game_update_def if_False simp_thms update_difficulty_same
        update_bottles_same update_remove_same update_lost_fields update_customers_customers
        c2 d2)
  show "g_comboCount (Game_update g d now rnd shake) =
      (if filter newlyLost
            (map (\<lambda>(i, customer). Customer_update customer d (g_difficulty g) (shake i))
              (enumerate 0 (g_customers g))) = []
       then g_comboCount (update_combo d g) else 0)"
    using assms(1)
    by (simp only: Game_update_def if_False simp_thms update_difficulty_same
        update_bottles_same update_remove_same update_lost_fields update_customers_customers
        update_customers_same c2 d2 k2)
qed

lemma update_waiting_flags:
  assumes "waiting c"
  shows "c_isServed (Customer_update c d D r) = c_isServed c"
    and "c_isRemovable (Customer_update c d D r) = c_isRemovable c"
proof -
  have w: "customer_dispatch (customer_animate c d) d D = updateWaiting (customer_animate c d) d D"
    using assms by (simp add: waiting_dispatch)
  have r: "c_isRemovable (updateWaiting (customer_animate c d) d D) = c_isRemovable c"
    unfolding updateWaiting_def Let_def decayed_def [symmetric]
    by (simp add: stormOff_def)
  show "c_isServed (Customer_update c d D r) = c_isServed c"
    by (simp add: Customer_update_def w updateWaiting_isServed)
  show "c_isRemovable (Customer_update c d D r) = c_isRemovable c"
    by (simp add: Customer_update_def w r)
qed

lemma markLost_more [simp]:
  "c_patience (markLost c) = c_patience c"
  "c_maxPatience (markLost c) = c_maxPatience c"
  "c_isServed (markLost c) = c_isServed c"
  "c_isLeaving (markLost c) = c_isLeaving c"
  by (simp_all add: markLost_def)

lemma serve_clock:
  assumes "serveCustomer_begin g ci now \<noteq> None"
  shows "g_lastSpawnTime (serveCustomer g ci now) = g_lastSpawnTime g"
    and "g_difficulty (serveCustomer g ci now) = g_difficulty g"
proof -
  from assms obtain g1 c bi where b: "serveCustomer_begin g ci now = Some (g1, c, bi)"
    by (cases rule: begin_cases [of g ci now]) auto
  note g1 = begin_Some(8) [OF b]
  show "g_lastSpawnTime (serveCustomer g ci now) = g_lastSpawnTime g"
    by (simp add: serveCustomer_def b serveCustomer_finish_def Let_def g1)
  show "g_difficulty (serveCustomer g ci now) = g_difficulty g"
    by (simp add: serveCustomer_def b finish_same begin_fields [OF b])
qed

lemma selectBottle_clock:
  "g_lastSpawnTime (selectBottle g index) = g_lastSpawnTime g"
  "g_comboTimer (selectBottle g index) = g_comboTimer g"
  by (simp_all add: selectBottle_def)

text \<open>
  \<open>regular slot patience\<close>: the office worker who came in as customer \<open>slot + 1\<close>, now
  waiting at slot \<open>slot\<close> with \<open>patience\<close> of 100 left.  \<open>rush\<close>: three of them at the
  bar of a game just started, with 81.5, 1.5 and 80 patience left, the first bottle
  selected.  The third is served at 1000 ms and the third bottle selected (\<open>rush1\<close>);
  then comes a tick of 1000 ms (\<open>rush2\<close>), in which the second runs out of patience and
  the first comes down to exactly 80.
\<close>

definition regular :: "nat \<Rightarrow> real \<Rightarrow> customer" where
  "regular slot patience =
    (assignSlot (Customer_new slot (no_options\<lparr>o_typeIndex := Some 0\<rparr>) rnd0 0) slot)
      \<lparr>c_x := CUSTOMER_SLOTS ! slot, c_state := IDLE, c_patience := patience\<rparr>"

definition rush :: game where
  "rush = fresh\<lparr>g_customers := [regular 0 81.5, regular 1 1.5, regular 2 80],
      g_customerSlots := [Some 1, Some 2, Some 3, None, None, None],
      g_customerIdCounter := 3, g_selectedBottleIndex := Some 0\<rparr>"

definition rush1 :: game where
  "rush1 = exec (serveCustomer rush 2 1000) (Select 2)"

definition rush2 :: game where
  "rush2 = exec rush1 (Tick 1000 2000 rnd0 (\<lambda>i. 1 / 2))"

lemma regular_fields:
  "c_state (regular slot p) = IDLE" "c_patience (regular slot p) = p"
  "c_maxPatience (regular slot p) = 100" "\<not> c_isLeaving (regular slot p)"
  "\<not> c_isServed (regular slot p)" "\<not> c_isRemovable (regular slot p)"
  "\<not> c_countedAsLost (regular slot p)" "waiting (regular slot p)"
  by (simp_all add: regular_def assignSlot_def Customer_new_def CUSTOMER_TYPES_def
      no_options_def Let_def waiting_def)

lemma regular_serve:
  "getPatiencePercent (regular slot p) = p" "fst (serve (regular slot p))"
  by (simp_all add: getPatiencePercent_def regular_fields serve_def)

lemma fresh_clock: "g_lastSpawnTime fresh = 0"
  by (simp add: fresh_def startGame_def)

lemma rush_fields:
  "g_customers rush = [regular 0 81.5, regular 1 1.5, regular 2 80]"
  "g_selectedBottleIndex rush = Some 0" "g_bottles rush = g_bottles fresh"
  "g_state rush = PLAYING" "g_score rush = 0" "g_comboCount rush = 0" "g_maxCombo rush = 0"
  "g_difficulty rush = 1" "g_lastSpawnTime rush = 0" "g_customersLost rush = 0"
  by (simp_all add: rush_def fresh_fields fresh_clock)

lemma rush_serve1: "serveCustomer_begin rush 2 1000 \<noteq> None"
  by (rule begin_ok [where bi = 0])
    (simp_all add: rush_fields fresh_shelf regular_serve isOnCooldown_def)

lemma rush1_fields:
  "g_customers rush1 = [regular 0 81.5, regular 1 1.5, snd (serve (regular 2 80))]"
  "g_selectedBottleIndex rush1 = Some 2"
  "g_bottles rush1 = (g_bottles fresh)[0 := snd (use (g_bottles fresh ! 0) 1000)]"
  "g_state rush1 = PLAYING" "g_score rush1 = 180" "g_comboCount rush1 = 1"
  "g_comboTimer rush1 = COMBO_TIMEOUT" "g_difficulty rush1 = 1" "g_lastSpawnTime rush1 = 0"
proof -
  note f = serve_frame [OF rush_serve1 rush_fields(2)]
  note k = serve_scores [OF rush_serve1]
  note c = serve_clock [OF rush_serve1]
  have pre: "g_state (serveCustomer rush 2 1000) = PLAYING"
    "2 < length (g_bottles (serveCustomer rush 2 1000))"
    "\<not> bt_locked (b_type (g_bottles (serveCustomer rush 2 1000) ! 2))"
    by (simp_all add: f rush_fields fresh_shelf)
  note s = selectBottle_fields [OF pre]
  show "g_customers rush1 = [regular 0 81.5, regular 1 1.5, snd (serve (regular 2 80))]"
    by (simp add: rush1_def s f rush_fields)
  show "g_selectedBottleIndex rush1 = Some 2" by (simp add: rush1_def s)
  show "g_bottles rush1 = (g_bottles fresh)[0 := snd (use (g_bottles fresh ! 0) 1000)]"
    by (simp add: rush1_def s f rush_fields)
  show "g_state rush1 = PLAYING" by (simp add: rush1_def s)
  show "g_score rush1 = 180"
    by (simp add: rush1_def small_same k rush_fields servePoints_80 regular_serve)
  show "g_comboCount rush1 = 1" by (simp add: rush1_def small_same k rush_fields)
  show "g_comboTimer rush1 = COMBO_TIMEOUT" by (simp add: rush1_def selectBottle_clock k)
  show "g_difficulty rush1 = 1" by (simp add: rush1_def small_same c rush_fields)
  show "g_lastSpawnTime rush1 = 0" by (simp add: rush1_def selectBottle_clock c rush_fields)
qed

lemma rush1_calm: "\<not> spawn_due 1000 rush1"
  by (simp add: spawn_due_def rush1_fields GAME_CONFIG)

lemma regular_tick:
  "c_patience (Customer_update (regular slot p) 1000 1 r) = max 0 (p - 3 / 2)"
  "c_maxPatience (Customer_update (regular slot p) 1000 1 r) = 100"
  "\<not> c_isServed (Customer_update (regular slot p) 1000 1 r)"
  "\<not> c_isRemovable (Customer_update (regular slot p) 1000 1 r)"
  "\<not> c_countedAsLost (Customer_update (regular slot p) 1000 1 r)"
  "c_isLeaving (Customer_update (regular slot p) 1000 1 r) = (p \<le> 3 / 2)"
  "c_state (Customer_update (regular slot p) 1000 1 r) =
    (if p \<le> 3 / 2 then STORMING_OFF else if p < 53 / 2 then ANGRY
     else if p < 103 / 2 then IMPATIENT else IDLE)"
proof -
  have d: "decayed (regular slot p) 1000 1 = max 0 (p - 3 / 2)"
    by (simp add: decayed_def regular_fields GAME_CONFIG)
  note w = regular_fields(8) [of slot p]
  show "c_patience (Customer_update (regular slot p) 1000 1 r) = max 0 (p - 3 / 2)"
    by (simp add: update_patience w d)
  show "c_maxPatience (Customer_update (regular slot p) 1000 1 r) = 100"
    by (simp add: update_maxPatience regular_fields)
  show "\<not> c_isServed (Customer_update (regular slot p) 1000 1 r)"
    by (simp add: update_waiting_flags [OF w] regular_fields)
  show "\<not> c_isRemovable (Customer_update (regular slot p) 1000 1 r)"
    by (simp add: update_waiting_flags [OF w] regular_fields)
  show "\<not> c_countedAsLost (Customer_update (regular slot p) 1000 1 r)"
    by (simp add: Customer_update_keeps regular_fields)
  show "c_isLeaving (Customer_update (regular slot p) 1000 1 r) = (p \<le> 3 / 2)"
    by (simp add: update_waiting_isLeaving [OF w] d regular_fields max_def)
  show "c_state (Customer_update (regular slot p) 1000 1 r) =
    (if p \<le> 3 / 2 then STORMING_OFF else if p < 53 / 2 then ANGRY
     else if p < 103 / 2 then IMPATIENT else IDLE)"
    by (simp add: update_waiting_state [OF w] d regular_fields max_def)
qed

lemma rush2_fields:
  "g_customers rush2 ! 0 = markLost (Customer_update (regular 0 81.5) 1000 1 (1 / 2))"
  "g_customers rush2 \<noteq> []"
  "g_selectedBottleIndex rush2 = Some 2"
  "g_bottles rush2 =
    map (\<lambda>bottle. Bottle_update bottle 1000 2000)
      ((g_bottles fresh)[0 := snd (use (g_bottles fresh ! 0) 1000)])"
  "g_score rush2 = 180" "g_comboCount rush2 = 0" "g_maxCombo rush2 = g_maxCombo rush1"
proof -
  note p = rush1_fields(4)
  note r = tick_roster [OF p rush1_calm, of 2000 rnd0 "\<lambda>i. 1 / 2"]
  note s = tick_shelf [OF p, of 1000 2000 rnd0 "\<lambda>i. 1 / 2"]
  have stays: "\<not> c_isRemovable (markLost (Customer_update (regular 0 81.5) 1000 1 (1 / 2)))"
    by (simp add: regular_tick)
  have storms: "newlyLost (Customer_update (regular 1 1.5) 1000 1 (1 / 2))"
    by (simp add: newlyLost_def regular_tick)
  have cs: "g_customers rush2 =
      markLost (Customer_update (regular 0 81.5) 1000 1 (1 / 2)) #
      filter (\<lambda>customer. \<not> c_isRemovable customer)
        [markLost (Customer_update (regular 1 1.5) 1000 1 (1 / 2)),
         markLost (Customer_update (snd (serve (regular 2 80))) 1000 1 (1 / 2))]"
    unfolding rush2_def exec.simps r(1) rush1_fields
    using stays by (simp add: enumerate_eq_zip upt_rec)
  show "g_customers rush2 ! 0 = markLost (Customer_update (regular 0 81.5) 1000 1 (1 / 2))"
    by (simp add: cs)
  show "g_customers rush2 \<noteq> []" by (simp add: cs)
  show "g_selectedBottleIndex rush2 = Some 2" by (simp add: rush2_def s rush1_fields)
  show "g_bottles rush2 =
    map (\<lambda>bottle. Bottle_update bottle 1000 2000)
      ((g_bottles fresh)[0 := snd (use (g_bottles fresh ! 0) 1000)])"
    by (simp add: rush2_def s rush1_fields)
  show "g_score rush2 = 180" by (simp add: rush2_def update_counters [OF p] rush1_fields)
  show "g_maxCombo rush2 = g_maxCombo rush1" by (simp add: rush2_def update_counters [OF p])
  show "g_comboCount rush2 = 0"
    unfolding rush2_def exec.simps r(2) rush1_fields
    using storms by (simp add: enumerate_eq_zip upt_rec)
qed

lemma rush2_first:
  "getPatiencePercent (markLost (Customer_update (regular 0 81.5) 1000 1 (1 / 2))) = 80"
  "fst (serve (markLost (Customer_update (regular 0 81.5) 1000 1 (1 / 2))))"
  by (simp_all add: getPatiencePercent_def serve_def regular_tick)

lemma rush_serve2: "serveCustomer_begin rush2 0 2000 \<noteq> None"
  using rush2_first(2)
  by (intro begin_ok [where bi = 2])
    (simp_all add: rush2_fields fresh_shelf isOnCooldown_def)

lemma rush_result:
  "getPatiencePercent (g_customers rush2 ! 0) = 80"
  "g_score (serveCustomer rush2 0 2000) = 360"
  "g_comboCount (serveCustomer rush2 0 2000) = 1"
  using rush2_first(1)
  by (simp_all add: serve_scores [OF rush_serve2] servePoints_80 rush2_fields)

lemma happy_stays:
  "c_state c = HAPPY \<Longrightarrow> c_state (Customer_update c d D r) \<noteq> STORMING_OFF"
  by (simp add: Customer_update_def customer_dispatch_def updateHappy_fields)

lemma tick_lost:
  assumes "g_state g = PLAYING" and "\<not> spawn_due d g"
  shows "g_customersLost (Game_update g d now rnd shake) =
      g_customersLost g + length (filter newlyLost
        (map (\<lambda>(i, customer). Customer_update customer d (g_difficulty g) (shake i))
          (enumerate 0 (g_customers g))))"
proof -
  let ?g1 = "update_poll d (update_combo d g)"
  let ?g2 = "update_spawn d rnd now ?g1"
  from assms(2) have due: "\<not> spawn_due d ?g1" by (simp add: spawn_due_later)
  have c2: "g_customers ?g2 = g_customers g"
    using due by (simp add: update_spawn_alt update_poll_same update_combo_same)
  have d2: "g_difficulty ?g2 = g_difficulty g"
    by (simp add: update_spawn_same update_poll_same update_combo_same)
  have l2: "g_customersLost ?g2 = g_customersLost g"
    by (simp add: update_spawn_same update_poll_same update_combo_same)
  show ?thesis
    using assms(1)
    by (simp only: Game_update_def if_False simp_thms update_difficulty_same
        update_bottles_same update_remove_same update_lost_fields update_customers_customers
        update_customers_same c2 d2 l2)
qed

lemma rush_lost:
  "g_customersLost rush1 = 0" "g_customersLost rush2 = 1"
proof -
  from rush_serve1 obtain g1 c bi where b: "serveCustomer_begin rush 2 1000 = Some (g1, c, bi)"
    by (cases rule: begin_cases [of rush 2 1000]) auto
  have "g_customersLost (serveCustomer rush 2 1000) = 0"
    by (simp add: serveCustomer_def b finish_same begin_fields [OF b] rush_fields)
  then show l1: "g_customersLost rush1 = 0" by (simp add: rush1_def selectBottle_def)
  have a: "\<not> newlyLost (Customer_update (regular 0 81.5) 1000 1 (1 / 2))"
    by (simp add: newlyLost_def regular_tick)
  have b: "newlyLost (Customer_update (regular 1 1.5) 1000 1 (1 / 2))"
    by (simp add: newlyLost_def regular_tick)
  have "c_state (snd (serve (regular 2 80))) = HAPPY"
    by (simp add: serve_state regular_fields)
  from happy_stays [OF this]
  have c: "\<not> newlyLost (Customer_update (snd (serve (regular 2 80))) 1000 1 (1 / 2))"
    by (simp add: newlyLost_def)
  show "g_customersLost rush2 = 1"
    unfolding rush2_def exec.simps tick_lost [OF rush1_fields(4) rush1_calm] rush1_fields l1
    using a b c by (simp add: enumerate_eq_zip upt_rec)
qed

text \<open>
  \<open>veteran\<close>: the three office workers at 80 percent in a round in which a chain of
  five serves has timed out before, so that the combo count is back at 0 and \<open>maxCombo\<close>
  is 5.
\<close>

definition veteran :: game where
  "veteran = trio\<lparr>g_maxCombo := 5, g_score := 1150, g_customersServed := 5\<rparr>"

lemma lined_best:
  assumes "lined g" and "g_comboCount g = 0"
  shows "g_maxCombo (serveCustomer (after_second g) 2 2500) = max (g_maxCombo g) 3"
proof -
  let ?s1 = "serveCustomer g 0 1000" and ?s2 = "serveCustomer (after_first g) 1 2000"
  have s1: "g_comboCount ?s1 = 1" "g_maxCombo ?s1 = max (g_maxCombo g) 1"
    using assms(2) by (simp_all add: serve_scores [OF lined_serve1 [OF assms(1)]])
  from between_keeps [OF lined_between(1), of g] s1
  have g1: "g_comboCount (after_first g) = 1" "g_maxCombo (after_first g) = max (g_maxCombo g) 1"
    by simp_all
  have s2: "g_comboCount ?s2 = 2" "g_maxCombo ?s2 = max (g_maxCombo g) 2"
    using g1 by (simp_all add: serve_scores [OF lined_serve2 [OF assms(1)], unfolded One_nat_def])
  from between_keeps [OF lined_between(2), of g] s2
  have g2: "g_comboCount (after_second g) = 2" "g_maxCombo (after_second g) = max (g_maxCombo g) 2"
    by simp_all
  show ?thesis
    using g2 by (simp add: serve_scores [OF lined_serve3 [OF assms(1)]])
qed

lemma veteran_fields:
  "lined veteran" "g_comboCount veteran = 0" "g_maxCombo veteran = 5"
  by (simp_all add: veteran_def lined_def trio_fields)

lemma veteran_percent:
  "getPatiencePercent (g_customers veteran ! 0) = 80"
  "getPatiencePercent (g_customers (after_first veteran) ! 1) = 80"
  "getPatiencePercent (g_customers (after_second veteran) ! 2) = 80"
  using veteran_fields(1)
  by (simp_all add: after_first_fields after_second_fields c80_fields lined_def)

text \<open>
  C3 as the specification states it fails in two ways.  A customer lost between two
  serves resets the combo count, however soon the next serve comes: in \<open>rush\<close> the first
  serve brings the score from 0 to 180 and the combo count to 1; the tick of 1000 ms,
  well within \<open>COMBO_TIMEOUT\<close>, counts one lost customer; the second serve, of a customer
  at exactly 80 percent, adds 180 again, not 205, and leaves the combo count at 1, not 2.
  And \<open>maxCombo\<close> is the maximum over the round so far: in \<open>veteran\<close>, with combo count 0,
  the three serves succeed with the chain unbroken, and \<open>maxCombo\<close> is 5 after the third,
  not 3.
\<close>

theorem C3_counterexample:
  "g_comboCount rush = 0 \<and> g_maxCombo rush = 0 \<and> g_score rush = 0 \<and>
   serveCustomer_begin rush 2 1000 \<noteq> None \<and> getPatiencePercent (g_customers rush ! 2) = 80 \<and>
   g_score (serveCustomer rush 2 1000) = 180 \<and> g_comboCount (serveCustomer rush 2 1000) = 1 \<and>
   g_comboTimer rush1 = COMBO_TIMEOUT \<and> 1000 < COMBO_TIMEOUT \<and>
   g_customersLost rush1 = 0 \<and> g_customersLost rush2 = 1 \<and>
   serveCustomer_begin rush2 0 2000 \<noteq> None \<and> getPatiencePercent (g_customers rush2 ! 0) = 80 \<and>
   g_score rush2 = 180 \<and> g_score (serveCustomer rush2 0 2000) = 360 \<and>
   g_comboCount (serveCustomer rush2 0 2000) = 1 \<and>
   g_comboCount veteran = 0 \<and> g_maxCombo veteran = 5 \<and>
   serveCustomer_begin veteran 0 1000 \<noteq> None \<and>
   getPatiencePercent (g_customers veteran ! 0) = 80 \<and>
   between (serveCustomer veteran 0 1000) (after_first veteran) \<and>
   serveCustomer_begin (after_first veteran) 1 2000 \<noteq> None \<and>
   getPatiencePercent (g_customers (after_first veteran) ! 1) = 80 \<and>
   between (serveCustomer (after_first veteran) 1 2000) (after_second veteran) \<and>
   serveCustomer_begin (after_second veteran) 2 2500 \<noteq> None \<and>
   getPatiencePercent (g_customers (after_second veteran) ! 2) = 80 \<and>
   g_maxCombo (serveCustomer (after_second veteran) 2 2500) = 5"
proof -
  have first: "g_score (serveCustomer rush 2 1000) = 180"
    "g_comboCount (serveCustomer rush 2 1000) = 1"
    "getPatiencePercent (g_customers rush ! 2) = 80"
    by (simp_all add: serve_scores [OF rush_serve1] rush_fields servePoints_80 regular_serve)
  note v = veteran_fields(1)
  from lined_best [OF v veteran_fields(2)]
  have best: "g_maxCombo (serveCustomer (after_second veteran) 2 2500) = 5"
    by (simp add: veteran_fields)
  show ?thesis
    using first best rush_serve1 rush_serve2 rush_result rush_lost veteran_percent
      lined_serve1 [OF v] lined_serve2 [OF v] lined_serve3 [OF v] lined_between [of veteran]
    by (simp add: rush_fields rush1_fields rush2_fields veteran_fields COMBO_TIMEOUT_def)
qed

end
